theory Spec2Isabelle
  imports Complex_Main "HOL-Library.Sublist" "HOL-Library.Multiset"
begin

section \<open>Data model of \<open>scripts/assign_tasks.py\<close>\<close>

text \<open>
  An issue as the allocator reads it: \<open>issue.title\<close>, \<open>issue.body\<close> (which may be
  \<open>None\<close>) and the names of \<open>issue.labels\<close>, in the order the tracker returns them.
\<close>

record issue =
  title :: string
  body :: "string option"
  labels :: "string list"

text \<open>
  One entry of the dictionary returned by \<open>_load_interns\<close>. The two counters are Python
  integers, hence \<open>int\<close>.
\<close>

record intern =
  username :: string
  name :: string
  skills :: "string list"
  preferences :: "string list"
  max_tasks :: int
  current_tasks :: int

text \<open>
  \<open>self.interns\<close> is a dictionary iterated with \<open>.items()\<close>, so its insertion order
  matters: an association list. A worker object is referred to by its position.
\<close>

type_synonym intern_dict = "(string \<times> intern) list"

section \<open>Strings\<close>

text \<open>
  \<open>str.lower()\<close> on ASCII text: each of the letters \<open>A\<close> to \<open>Z\<close> moves to its
  lower-case letter, every other character stays.
\<close>

definition lower_char :: "char \<Rightarrow> char" where
  "lower_char c =
     (case map_of (zip ''ABCDEFGHIJKLMNOPQRSTUVWXYZ'' ''abcdefghijklmnopqrstuvwxyz'') c of
        Some d \<Rightarrow> d
      | None \<Rightarrow> c)"

definition lower :: "string \<Rightarrow> string" where
  "lower s = map lower_char s"

text \<open>
  \<open>needle in hay\<close> on two strings: \<open>needle\<close> occurs as a contiguous run of \<open>hay\<close>.
  The empty needle occurs in every string.
\<close>

fun str_in :: "string \<Rightarrow> string \<Rightarrow> bool" where
  "str_in needle [] = (needle = [])"
| "str_in needle (c # cs) = (prefix needle (c # cs) \<or> str_in needle cs)"

section \<open>Scoring\<close>

text \<open>
  \<open>calculate_task_score\<close>. The score is a Python float built from the constants
  2.0, 1.5, 1.0 and 0.5 by addition only; all are multiples of one half, so every sum is
  exact in binary floating point and the score is modelled as a rational number.
  The two \<open>for\<close> loops are folds over the worker's lists with the running score.
\<close>

definition issue_labels_of :: "issue \<Rightarrow> string list" where
  "issue_labels_of i = map lower (labels i)"

definition issue_body_of :: "issue \<Rightarrow> string" where
  "issue_body_of i = (case body i of None \<Rightarrow> [] | Some b \<Rightarrow> if b = [] then [] else lower b)"

definition skill_step :: "string \<Rightarrow> string list \<Rightarrow> string \<Rightarrow> rat \<Rightarrow> rat" where
  "skill_step issue_body issue_labels skill score =
     (if str_in skill issue_body \<or> skill \<in> set issue_labels then score + 2 else score)"

definition preference_step :: "string list \<Rightarrow> string \<Rightarrow> rat \<Rightarrow> rat" where
  "preference_step issue_labels preference score =
     (if preference \<in> set issue_labels then score + 3 / 2 else score)"

definition calculate_task_score :: "issue \<Rightarrow> intern \<Rightarrow> rat" where
  "calculate_task_score i w =
     (let score = 0;
          issue_labels = issue_labels_of i;
          issue_body = issue_body_of i;
          score = fold (skill_step issue_body issue_labels) (skills w) score;
          score = fold (preference_step issue_labels) (preferences w) score;
          score = (if ''high-priority'' \<in> set issue_labels then score + 1
                   else if ''medium-priority'' \<in> set issue_labels then score + 1 / 2
                   else score);
          score = (if ''good first issue'' \<in> set issue_labels \<and> current_tasks w = 0
                   then score + 1 else score)
      in score)"

section \<open>Priority ordering\<close>

definition priority_order :: "string list" where
  "priority_order = [''high-priority'', ''medium-priority'', ''low-priority'']"

text \<open>
  \<open>list.index\<close>: the position of the first occurrence. Python raises \<open>ValueError\<close> for
  an absent element; the sort key calls it only for labels that passed
  \<open>label.name in priority_order\<close>, so that branch is never taken
  (lemma \<open>index_of_less\<close> below) and the model returns the length there.
\<close>

fun index_of :: "'a list \<Rightarrow> 'a \<Rightarrow> nat" where
  "index_of [] x = 0"
| "index_of (y # ys) x = (if y = x then 0 else Suc (index_of ys x))"

text \<open>The \<open>key\<close> function of the sort in \<open>assign_tasks\<close>, on the label names as they are.\<close>

definition priority_key :: "issue \<Rightarrow> nat" where
  "priority_key i =
     min_list (map (index_of priority_order)
                 (filter (\<lambda>label_name. label_name \<in> set priority_order) (labels i))
               @ [length priority_order])"

text \<open>
  \<open>unassigned_issues.sort(key=...)\<close>: Python's sort is stable and ascending in the key;
  \<open>sort_key\<close> is the stable insertion sort by key.
\<close>

definition sort_issues :: "issue list \<Rightarrow> issue list" where
  "sort_issues unassigned_issues = sort_key priority_key unassigned_issues"

section \<open>The assignment loop\<close>

text \<open>
  What the loop does with one issue, in the order of its three \<open>print\<close> statements:
  the issue was assigned (to a user name, with the winning score), the call
  \<open>add_to_assignees\<close> raised \<open>GithubException\<close>, or no suitable intern was found.
\<close>

datatype outcome =
  Assigned issue string rat
| AssignError issue string
| NoSuitable issue

record run_state =
  interns :: intern_dict
  assignments_made :: int
  outcomes :: "outcome list"

text \<open>
  The tracker's answer to \<open>issue.add_to_assignees(username)\<close>: \<open>True\<close> when the call
  returns, \<open>False\<close> when it raises \<open>GithubException\<close>. The first argument is the number
  of calls made earlier in the run, so the answers of a run may be any sequence.
\<close>

type_synonym commit = "nat \<Rightarrow> issue \<Rightarrow> string \<Rightarrow> bool"

fun assignments :: "outcome list \<Rightarrow> (issue \<times> string \<times> rat) list" where
  "assignments [] = []"
| "assignments (Assigned i u s # os) = (i, u, s) # assignments os"
| "assignments (AssignError i u # os) = assignments os"
| "assignments (NoSuitable i # os) = assignments os"

fun attempts :: "outcome list \<Rightarrow> (issue \<times> string) list" where
  "attempts [] = []"
| "attempts (Assigned i u s # os) = (i, u) # attempts os"
| "attempts (AssignError i u # os) = (i, u) # attempts os"
| "attempts (NoSuitable i # os) = attempts os"

fun outcome_issue :: "outcome \<Rightarrow> issue" where
  "outcome_issue (Assigned i u s) = i"
| "outcome_issue (AssignError i u) = i"
| "outcome_issue (NoSuitable i) = i"

text \<open>
  The inner loop over \<open>self.interns.items()\<close>: \<open>k\<close> is the position of the next
  worker, the accumulator is \<open>(best_intern, best_score)\<close>, started at \<open>(None, -1)\<close>.
\<close>

fun best_loop :: "issue \<Rightarrow> intern_dict \<Rightarrow> nat \<Rightarrow> nat option \<times> rat \<Rightarrow> nat option \<times> rat" where
  "best_loop i [] k acc = acc"
| "best_loop i ((intern_id, w) # ws) k (best_intern, best_score) =
     (if current_tasks w \<ge> max_tasks w then best_loop i ws (Suc k) (best_intern, best_score)
      else
        (let score = calculate_task_score i w in
         if score > best_score then best_loop i ws (Suc k) (Some k, score)
         else best_loop i ws (Suc k) (best_intern, best_score)))"

definition find_best :: "issue \<Rightarrow> intern_dict \<Rightarrow> nat option \<times> rat" where
  "find_best i ws = best_loop i ws 0 (None, - 1)"

text \<open>The body of \<open>for issue in unassigned_issues\<close> after the bound check.\<close>

definition process_issue :: "commit \<Rightarrow> issue \<Rightarrow> run_state \<Rightarrow> run_state" where
  "process_issue commit i st =
     (case find_best i (interns st) of
        (None, best_score) \<Rightarrow> st\<lparr>outcomes := outcomes st @ [NoSuitable i]\<rparr>
      | (Some k, best_score) \<Rightarrow>
          if best_score > 0 then
            (let (intern_id, best_intern) = interns st ! k in
             if commit (length (attempts (outcomes st))) i (username best_intern) then
               st\<lparr>interns := (interns st)
                       [k := (intern_id,
                              best_intern\<lparr>current_tasks := current_tasks best_intern + 1\<rparr>)],
                  assignments_made := assignments_made st + 1,
                  outcomes := outcomes st @ [Assigned i (username best_intern) best_score]\<rparr>
             else st\<lparr>outcomes := outcomes st @ [AssignError i (username best_intern)]\<rparr>)
          else st\<lparr>outcomes := outcomes st @ [NoSuitable i]\<rparr>)"

fun assign_loop :: "commit \<Rightarrow> int \<Rightarrow> issue list \<Rightarrow> run_state \<Rightarrow> run_state" where
  "assign_loop commit max_assignments [] st = st"
| "assign_loop commit max_assignments (i # issues) st =
     (if assignments_made st \<ge> max_assignments then st
      else assign_loop commit max_assignments issues (process_issue commit i st))"

text \<open>\<open>workload.get(username, 0)\<close> on the dictionary returned by \<open>get_intern_workload\<close>.\<close>

definition workload_get :: "(string \<rightharpoonup> int) \<Rightarrow> string \<Rightarrow> int" where
  "workload_get workload u = (case workload u of None \<Rightarrow> 0 | Some n \<Rightarrow> n)"

definition seed_intern :: "(string \<rightharpoonup> int) \<Rightarrow> intern \<Rightarrow> intern" where
  "seed_intern workload w = w\<lparr>current_tasks := workload_get workload (username w)\<rparr>"

definition seed :: "(string \<rightharpoonup> int) \<Rightarrow> intern_dict \<Rightarrow> intern_dict" where
  "seed workload ws = map (\<lambda>(intern_id, w). (intern_id, seed_intern workload w)) ws"

text \<open>
  \<open>assign_tasks\<close>: \<open>workload\<close> and \<open>unassigned_issues\<close> are what the two fetches
  returned. With no unassigned issue the method returns right after seeding.
\<close>

definition assign_tasks ::
  "commit \<Rightarrow> (string \<rightharpoonup> int) \<Rightarrow> issue list \<Rightarrow> int \<Rightarrow> intern_dict \<Rightarrow> run_state" where
  "assign_tasks commit workload unassigned_issues max_assignments ws =
     (let st = \<lparr>interns = seed workload ws, assignments_made = 0, outcomes = []\<rparr> in
      if unassigned_issues = [] then st
      else assign_loop commit max_assignments (sort_issues unassigned_issues) st)"

section \<open>Suggest mode\<close>

text \<open>
  The inner loop of \<open>suggest_assignments\<close> for one issue: every worker's
  \<open>current_tasks\<close> is overwritten from \<open>workload\<close>, the worker is scored, and the pair
  (worker, score) is appended when the worker has room. A worker is referred to by position.
\<close>

fun suggest_loop ::
  "(string \<rightharpoonup> int) \<Rightarrow> issue \<Rightarrow> intern_dict \<Rightarrow> nat \<Rightarrow> (nat \<times> rat) list
     \<Rightarrow> intern_dict \<times> (nat \<times> rat) list" where
  "suggest_loop workload i [] k suggestions = ([], suggestions)"
| "suggest_loop workload i ((intern_id, w) # ws) k suggestions =
     (let w' = w\<lparr>current_tasks := workload_get workload (username w)\<rparr>;
          score = calculate_task_score i w';
          suggestions' = (if current_tasks w' < max_tasks w'
                          then suggestions @ [(k, score)] else suggestions);
          (ws', result) = suggest_loop workload i ws (Suc k) suggestions'
      in ((intern_id, w') # ws', result))"

text \<open>
  \<open>suggestions.sort(key=lambda x: x[1], reverse=True)\<close> keeps the order of equal scores
  (Python's reverse sort is stable too): the stable sort by the negated score. Then the
  first three are printed.
\<close>

definition suggest_issue ::
  "(string \<rightharpoonup> int) \<Rightarrow> issue \<Rightarrow> intern_dict \<Rightarrow> intern_dict \<times> (nat \<times> rat) list" where
  "suggest_issue workload i ws =
     (let (ws', suggestions) = suggest_loop workload i ws 0 [] in
      (ws', take 3 (sort_key (\<lambda>x. - snd x) suggestions)))"

fun suggest_assignments ::
  "(string \<rightharpoonup> int) \<Rightarrow> issue list \<Rightarrow> intern_dict
     \<Rightarrow> intern_dict \<times> (issue \<times> (nat \<times> rat) list) list" where
  "suggest_assignments workload [] ws = (ws, [])"
| "suggest_assignments workload (i # issues) ws =
     (let (ws', top) = suggest_issue workload i ws;
          (ws'', rest) = suggest_assignments workload issues ws'
      in (ws'', (i, top) # rest))"

section \<open>Auxiliary notions for the statements\<close>

text \<open>The counter \<open>assignments_made\<close> agrees with the assignments recorded so far.\<close>

definition counted :: "run_state \<Rightarrow> bool" where
  "counted st \<longleftrightarrow> assignments_made st = int (length (assignments (outcomes st)))"

text \<open>
  The rank as the specification words it: the index of the first tier of
  high, medium, low that occurs among the tags, and 3 when none does. The tags of an item
  are its case-normalised label names.
\<close>

definition spec_rank :: "string list \<Rightarrow> nat" where
  "spec_rank tags =
     (if ''high-priority'' \<in> set tags then 0
      else if ''medium-priority'' \<in> set tags then 1
      else if ''low-priority'' \<in> set tags then 2
      else 3)"

text \<open>The capacity check of the inner loop, negated: the worker can take one more task.\<close>

definition has_room :: "intern \<Rightarrow> bool" where
  "has_room w \<longleftrightarrow> current_tasks w < max_tasks w"

text \<open>The load invariant of one worker, and of the whole dictionary.\<close>

definition load_ok :: "intern \<Rightarrow> bool" where
  "load_ok w \<longleftrightarrow> 0 \<le> current_tasks w \<and> current_tasks w \<le> max_tasks w"

definition loads_ok :: "intern_dict \<Rightarrow> bool" where
  "loads_ok ws \<longleftrightarrow> list_all (\<lambda>entry. load_ok (snd entry)) ws"

text \<open>
  The states the loop of \<open>assign_tasks\<close> passes through: the state before each issue
  it looks at and the state it ends in. The last one is the result of the run.
\<close>

fun loop_states :: "commit \<Rightarrow> int \<Rightarrow> issue list \<Rightarrow> run_state \<Rightarrow> run_state list" where
  "loop_states commit max_assignments [] st = [st]"
| "loop_states commit max_assignments (i # issues) st =
     (if assignments_made st \<ge> max_assignments then [st]
      else st # loop_states commit max_assignments issues (process_issue commit i st))"

definition run_states ::
  "commit \<Rightarrow> (string \<rightharpoonup> int) \<Rightarrow> issue list \<Rightarrow> int \<Rightarrow> intern_dict \<Rightarrow> run_state list" where
  "run_states commit workload unassigned_issues max_assignments ws =
     (let st = \<lparr>interns = seed workload ws, assignments_made = 0, outcomes = []\<rparr> in
      if unassigned_issues = [] then [st]
      else loop_states commit max_assignments (sort_issues unassigned_issues) st)"

text \<open>The workers and the item of the scenarios A and B of the specification.\<close>

definition worker_A :: intern where
  "worker_A = \<lparr>username = ''A'', name = ''A'', skills = [''python'', ''ai''],
     preferences = [''lecture''], max_tasks = 3, current_tasks = 0\<rparr>"

definition worker_B :: intern where
  "worker_B = \<lparr>username = ''B'', name = ''B'', skills = [''testing''],
     preferences = [''workshop''], max_tasks = 3, current_tasks = 0\<rparr>"

definition worker_C :: intern where
  "worker_C = \<lparr>username = ''C'', name = ''C'', skills = [],
     preferences = [], max_tasks = 1, current_tasks = 1\<rparr>"

definition item_I1 :: issue where
  "item_I1 = \<lparr>title = ''I1'', body = Some ''intro to python and ai'',
     labels = [''lecture'', ''high-priority'']\<rparr>"

text \<open>An item without labels and without a body.\<close>

definition item_I0 :: issue where
  "item_I0 = \<lparr>title = ''I0'', body = None, labels = []\<rparr>"

text \<open>A tracker that rejects the first call of a run and accepts every later one.\<close>

definition fail_first :: commit where
  "fail_first n i u \<longleftrightarrow> n \<noteq> 0"

text \<open>
  The additive scheme as the specification words it. The tag set of an item is its
  case-normalised label names, an absent body is the empty text, and a skill tag matches
  when it is in the tag set or occurs in the body regardless of case (both sides
  lower-cased).
\<close>

definition spec_tag_set :: "issue \<Rightarrow> string set" where
  "spec_tag_set i = set (map lower (labels i))"

definition spec_body :: "issue \<Rightarrow> string" where
  "spec_body i = (case body i of None \<Rightarrow> [] | Some b \<Rightarrow> b)"

definition spec_skill_match :: "issue \<Rightarrow> string \<Rightarrow> bool" where
  "spec_skill_match i skill \<longleftrightarrow>
     skill \<in> spec_tag_set i \<or> str_in (lower skill) (lower (spec_body i))"

definition spec_score :: "issue \<Rightarrow> intern \<Rightarrow> rat" where
  "spec_score i w =
     2 * of_nat (length (filter (spec_skill_match i) (skills w)))
     + 3 / 2 * of_nat (length (filter (\<lambda>preference. preference \<in> spec_tag_set i) (preferences w)))
     + (if ''high-priority'' \<in> spec_tag_set i then 1
        else if ''medium-priority'' \<in> spec_tag_set i then 1 / 2 else 0)
     + (if ''good first issue'' \<in> spec_tag_set i \<and> current_tasks w = 0 then 1 else 0)"

text \<open>A worker whose one skill tag has a capital letter, and an item that mentions it.\<close>

definition worker_P :: intern where
  "worker_P = \<lparr>username = ''P'', name = ''P'', skills = [''Python''],
     preferences = [], max_tasks = 3, current_tasks = 1\<rparr>"

definition item_P :: issue where
  "item_P = \<lparr>title = ''P1'', body = Some ''learn Python'', labels = []\<rparr>"

text \<open>
  Two trackers give the same answers to a sequence of calls: call number \<open>n\<close> of the
  sequence gets the same answer from both.
\<close>

definition same_answers :: "commit \<Rightarrow> commit \<Rightarrow> (issue \<times> string) list \<Rightarrow> bool" where
  "same_answers c c' calls =
     list_all (\<lambda>(n, i, u). c n i u = c' n i u) (enumerate 0 calls)"

text \<open>A tracker that accepts the first call of a run and rejects every later one.\<close>

definition accept_first :: commit where
  "accept_first n i u \<longleftrightarrow> n = 0"

text \<open>
  The workers with room, each with its position and its score for the item, in the order
  of the dictionary; \<open>k\<close> is the position of the first entry.
\<close>

fun candidates :: "issue \<Rightarrow> intern_dict \<Rightarrow> nat \<Rightarrow> (nat \<times> rat) list" where
  "candidates i [] k = []"
| "candidates i ((intern_id, w) # ws) k =
     (if current_tasks w < max_tasks w
      then (k, calculate_task_score i w) # candidates i ws (Suc k)
      else candidates i ws (Suc k))"

text \<open>
  One step of the selection loop on a candidate: it replaces the best worker so far only
  when its score is strictly greater.
\<close>

definition pick :: "nat \<times> rat \<Rightarrow> nat option \<times> rat \<Rightarrow> nat option \<times> rat" where
  "pick c acc = (if snd c > snd acc then (Some (fst c), snd c) else acc)"

text \<open>Two workers with room for one task each, and an item without priority label.\<close>

definition worker_D :: intern where
  "worker_D = \<lparr>username = ''D'', name = ''D'', skills = [''python''],
     preferences = [], max_tasks = 1, current_tasks = 0\<rparr>"

definition worker_E :: intern where
  "worker_E = \<lparr>username = ''E'', name = ''E'', skills = [''python''],
     preferences = [], max_tasks = 1, current_tasks = 0\<rparr>"

text \<open>A tracker that accepts every call.\<close>

definition accept_all :: commit where
  "accept_all n i u \<longleftrightarrow> True"

definition item_J :: issue where
  "item_J = \<lparr>title = ''J'', body = Some ''python basics'', labels = []\<rparr>"

definition spec_rank_of :: "issue \<Rightarrow> nat" where
  "spec_rank_of i = spec_rank (map lower (labels i))"

text \<open>
  An item whose priority label is written with capitals, and an item of low priority.
\<close>

definition item_H :: issue where
  "item_H = \<lparr>title = ''H'', body = Some ''python'', labels = [''High-Priority'']\<rparr>"

definition item_L :: issue where
  "item_L = \<lparr>title = ''L'', body = Some ''python'', labels = [''low-priority'']\<rparr>"

section \<open>The counter and the bound\<close>

lemma assignments_append: "assignments (xs @ ys) = assignments xs @ assignments ys"
  by (induction xs rule: assignments.induct) simp_all

lemma attempts_append: "attempts (xs @ ys) = attempts xs @ attempts ys"
  by (induction xs rule: attempts.induct) simp_all

lemma process_issue_made:
  "assignments_made (process_issue commit i st) = assignments_made st \<or>
   assignments_made (process_issue commit i st) = assignments_made st + 1"
  by (simp add: process_issue_def Let_def split: prod.splits option.splits)

lemma process_issue_counted: "counted st \<Longrightarrow> counted (process_issue commit i st)"
  by (simp add: counted_def process_issue_def Let_def assignments_append
      split: prod.splits option.splits)

lemma assign_loop_counted: "counted st \<Longrightarrow> counted (assign_loop commit m issues st)"
  by (induction issues arbitrary: st) (simp_all add: process_issue_counted)

lemma assign_loop_made_le:
  "assignments_made (assign_loop commit m issues st) \<le> max (assignments_made st) m"
proof (induction issues arbitrary: st)
  case Nil
  show ?case by simp
next
  case (Cons i issues)
  show ?case
  proof (cases "assignments_made st \<ge> m")
    case True
    then show ?thesis by simp
  next
    case False
    have "assignments_made (process_issue commit i st) \<le> m"
      using False process_issue_made [of commit i st] by linarith
    with Cons.IH [of "process_issue commit i st"] False show ?thesis by simp
  qed
qed

lemma assign_tasks_counted: "counted (assign_tasks commit workload issues m ws)"
proof -
  have "counted \<lparr>interns = seed workload ws, assignments_made = 0, outcomes = []\<rparr>"
    by (simp add: counted_def)
  then show ?thesis
    by (simp add: assign_tasks_def Let_def assign_loop_counted)
qed

lemma assign_tasks_made_le:
  "assignments_made (assign_tasks commit workload issues m ws) \<le> max 0 m"
  using assign_loop_made_le [of commit m "sort_issues issues"
      "\<lparr>interns = seed workload ws, assignments_made = 0, outcomes = []\<rparr>"]
  by (simp add: assign_tasks_def Let_def)

lemma assign_loop_stop: "assignments_made st \<ge> m \<Longrightarrow> assign_loop commit m issues st = st"
  by (cases issues) simp_all

lemma length_assignments_le:
  "length (assignments (outcomes (assign_tasks commit workload issues m ws))) \<le> nat m"
  using assign_tasks_counted [of commit workload issues m ws]
    assign_tasks_made_le [of commit workload issues m ws]
  by (simp add: counted_def)

text \<open>
  Claim C6. A run of \<open>assign_tasks\<close> records at most \<open>max_assignments\<close> assignments
  (for a negative bound: none), whatever the tracker answers, the fetched workload, the
  issues and the workers are; with \<open>max_assignments = 0\<close> the sequence of assignments
  is empty.
\<close>

theorem max_assignments_bound:
  "length (assignments (outcomes (assign_tasks commit workload unassigned_issues max_assignments ws)))
     \<le> nat max_assignments
   \<and> assignments (outcomes (assign_tasks commit workload unassigned_issues 0 ws)) = []"
proof
  show "length (assignments (outcomes (assign_tasks commit workload unassigned_issues max_assignments ws)))
     \<le> nat max_assignments"
    by (rule length_assignments_le)
next
  show "assignments (outcomes (assign_tasks commit workload unassigned_issues 0 ws)) = []"
    by (simp add: assign_tasks_def Let_def assign_loop_stop)
qed

section \<open>Priority ordering of the run\<close>

lemma index_of_less: "x \<in> set xs \<Longrightarrow> index_of xs x < length xs \<and> xs ! index_of xs x = x"
  by (induction xs) auto

lemma min_list_Cons: "xs \<noteq> [] \<Longrightarrow> min_list (x # xs) = min x (min_list xs)"
  by (cases xs) simp_all

lemma rank_three_tiers:
  assumes "a \<noteq> b" "a \<noteq> c" "b \<noteq> c"
  shows "min_list (map (index_of [a, b, c]) (filter (\<lambda>n. n \<in> set [a, b, c]) ls)
                   @ [length [a, b, c]])
         = (if a \<in> set ls then 0 else if b \<in> set ls then 1 else if c \<in> set ls then 2 else 3)"
proof (induction ls)
  case Nil
  show ?case by simp
next
  case (Cons l ls)
  have ne: "map (index_of [a, b, c]) (filter (\<lambda>n. n \<in> set [a, b, c]) ls)
      @ [length [a, b, c]] \<noteq> []"
    by simp
  consider "l = a" | "l = b" | "l = c" | "l \<noteq> a" "l \<noteq> b" "l \<noteq> c" by blast
  then show ?case
  proof cases
    case 1
    then show ?thesis using ne by (simp add: min_list_Cons del: min_list.simps)
  next
    case 2
    then show ?thesis using ne assms Cons.IH by (simp add: min_list_Cons del: min_list.simps)
  next
    case 3
    then show ?thesis using ne assms Cons.IH by (simp add: min_list_Cons del: min_list.simps)
  next
    case 4
    then show ?thesis using Cons.IH by simp
  qed
qed

lemma priority_key_rank: "priority_key i = spec_rank (labels i)"
proof -
  have "''high-priority'' \<noteq> ''medium-priority''" "''high-priority'' \<noteq> ''low-priority''"
    "''medium-priority'' \<noteq> ''low-priority''" by simp_all
  from rank_three_tiers [OF this, of "labels i"] show ?thesis
    by (simp only: priority_key_def priority_order_def spec_rank_def)
qed

lemma process_issue_outcomes:
  "\<exists>out. outcomes (process_issue commit i st) = outcomes st @ [out] \<and> outcome_issue out = i"
  by (simp add: process_issue_def Let_def split: prod.splits option.splits)

lemma assign_loop_outcomes:
  "\<exists>n. map outcome_issue (outcomes (assign_loop commit m issues st))
        = map outcome_issue (outcomes st) @ take n issues"
proof (induction issues arbitrary: st)
  case Nil
  show ?case by simp
next
  case (Cons i issues)
  show ?case
  proof (cases "assignments_made st \<ge> m")
    case True
    then have "map outcome_issue (outcomes (assign_loop commit m (i # issues) st))
        = map outcome_issue (outcomes st) @ take 0 (i # issues)" by simp
    then show ?thesis by blast
  next
    case False
    obtain out where out: "outcomes (process_issue commit i st) = outcomes st @ [out]"
      "outcome_issue out = i"
      using process_issue_outcomes by blast
    obtain n where "map outcome_issue (outcomes (assign_loop commit m issues (process_issue commit i st)))
        = map outcome_issue (outcomes (process_issue commit i st)) @ take n issues"
      using Cons.IH by blast
    with out False have "map outcome_issue (outcomes (assign_loop commit m (i # issues) st))
        = map outcome_issue (outcomes st) @ take (Suc n) (i # issues)" by simp
    then show ?thesis by blast
  qed
qed

lemma assign_tasks_processed:
  "prefix (map outcome_issue (outcomes (assign_tasks commit workload issues m ws))) (sort_issues issues)"
proof (cases "issues = []")
  case True
  then show ?thesis by (simp add: assign_tasks_def)
next
  case False
  obtain n where "map outcome_issue (outcomes (assign_loop commit m (sort_issues issues)
       \<lparr>interns = seed workload ws, assignments_made = 0, outcomes = []\<rparr>))
     = take n (sort_issues issues)"
    using assign_loop_outcomes [of commit m "sort_issues issues"
       "\<lparr>interns = seed workload ws, assignments_made = 0, outcomes = []\<rparr>"] by auto
  with False show ?thesis by (simp add: assign_tasks_def Let_def take_is_prefix)
qed

lemma assignments_subseq: "subseq (map fst (assignments os)) (map outcome_issue os)"
  by (induction os rule: assignments.induct) (auto intro: list_emb_Cons)

text \<open>
  On the label names as they are written, the sort key is the index of the first tier of
  high, medium, low among them, or 3. The sort is a rearrangement of the input, ascending
  in the key, that keeps the input order of the issues of any one key. The issues the loop
  handles are a prefix of the sorted list, and the recorded assignments follow its order.
\<close>

lemma sort_issues_order:
  "priority_key i = spec_rank (labels i)
   \<and> sorted (map priority_key (sort_issues unassigned_issues))
   \<and> mset (sort_issues unassigned_issues) = mset unassigned_issues
   \<and> filter (\<lambda>j. priority_key j = r) (sort_issues unassigned_issues)
       = filter (\<lambda>j. priority_key j = r) unassigned_issues
   \<and> prefix (map outcome_issue (outcomes (assign_tasks commit workload unassigned_issues m ws)))
        (sort_issues unassigned_issues)
   \<and> subseq (map fst (assignments (outcomes (assign_tasks commit workload unassigned_issues m ws))))
        (sort_issues unassigned_issues)"
proof (intro conjI)
  show "priority_key i = spec_rank (labels i)" by (rule priority_key_rank)
  show "sorted (map priority_key (sort_issues unassigned_issues))"
    by (simp add: sort_issues_def)
  show "mset (sort_issues unassigned_issues) = mset unassigned_issues"
    by (simp add: sort_issues_def)
  show "filter (\<lambda>j. priority_key j = r) (sort_issues unassigned_issues)
       = filter (\<lambda>j. priority_key j = r) unassigned_issues"
    by (simp add: sort_issues_def sort_key_stable)
  show p: "prefix (map outcome_issue (outcomes (assign_tasks commit workload unassigned_issues m ws)))
        (sort_issues unassigned_issues)" by (rule assign_tasks_processed)
  show "subseq (map fst (assignments (outcomes (assign_tasks commit workload unassigned_issues m ws))))
        (sort_issues unassigned_issues)"
    using assignments_subseq p prefix_imp_subseq subseq_order.order_trans by blast
qed

section \<open>Scores and the selection loop\<close>

lemma fold_skill_step_ge: "s \<le> fold (skill_step b l) xs s"
proof (induction xs arbitrary: s)
  case Nil show ?case by simp
next
  case (Cons x xs)
  have "s \<le> skill_step b l x s" by (simp add: skill_step_def)
  also have "\<dots> \<le> fold (skill_step b l) xs (skill_step b l x s)" by (rule Cons.IH)
  finally show ?case by simp
qed

lemma fold_preference_step_ge: "s \<le> fold (preference_step l) xs s"
proof (induction xs arbitrary: s)
  case Nil show ?case by simp
next
  case (Cons x xs)
  have "s \<le> preference_step l x s" by (simp add: preference_step_def)
  also have "\<dots> \<le> fold (preference_step l) xs (preference_step l x s)" by (rule Cons.IH)
  finally show ?case by simp
qed

lemma score_nonneg: "0 \<le> calculate_task_score i w"
proof -
  have a: "0 \<le> fold (skill_step (issue_body_of i) (issue_labels_of i)) (skills w) 0"
    by (rule fold_skill_step_ge)
  have b: "fold (skill_step (issue_body_of i) (issue_labels_of i)) (skills w) 0
     \<le> fold (preference_step (issue_labels_of i)) (preferences w)
          (fold (skill_step (issue_body_of i) (issue_labels_of i)) (skills w) 0)"
    by (rule fold_preference_step_ge)
  from a b show ?thesis
    by (simp add: calculate_task_score_def Let_def)
qed

lemma best_loop_spec:
  assumes "best_loop i ws k (b, bs) = (b', s')"
  shows "(b' = b \<and> s' = bs \<and>
          (\<forall>j<length ws. has_room (snd (ws ! j)) \<longrightarrow> calculate_task_score i (snd (ws ! j)) \<le> bs))
       \<or> (\<exists>j<length ws. b' = Some (k + j) \<and> has_room (snd (ws ! j))
             \<and> s' = calculate_task_score i (snd (ws ! j)) \<and> bs < s'
             \<and> (\<forall>j'<length ws. has_room (snd (ws ! j')) \<longrightarrow> calculate_task_score i (snd (ws ! j')) \<le> s')
             \<and> (\<forall>j'<j. has_room (snd (ws ! j')) \<longrightarrow> calculate_task_score i (snd (ws ! j')) < s'))"
  using assms
proof (induction ws arbitrary: k b bs)
  case Nil
  then show ?case by simp
next
  case (Cons x ws)
  obtain intern_id w where x: "x = (intern_id, w)" by (cases x)
  show ?case
  proof (cases "has_room w")
    case False
    with Cons.prems x have "best_loop i ws (Suc k) (b, bs) = (b', s')"
      by (simp add: has_room_def)
    from Cons.IH [OF this] show ?thesis
      using False x by (simp add: All_less_Suc2 Ex_less_Suc2)
  next
    case True
    show ?thesis
    proof (cases "calculate_task_score i w > bs")
      case False
      with Cons.prems x True have "best_loop i ws (Suc k) (b, bs) = (b', s')"
        by (simp add: has_room_def)
      from Cons.IH [OF this] show ?thesis
        using False True x by (auto simp add: All_less_Suc2 Ex_less_Suc2)
    next
      case gt: True
      with Cons.prems x True
      have "best_loop i ws (Suc k) (Some k, calculate_task_score i w) = (b', s')"
        by (simp add: has_room_def)
      from Cons.IH [OF this] show ?thesis
        using gt True x by (auto simp add: All_less_Suc2 Ex_less_Suc2)
    qed
  qed
qed

lemma find_best_Some:
  assumes "find_best i ws = (Some k, s)"
  shows "k < length ws \<and> has_room (snd (ws ! k)) \<and> s = calculate_task_score i (snd (ws ! k))
         \<and> (\<forall>j<length ws. has_room (snd (ws ! j)) \<longrightarrow> calculate_task_score i (snd (ws ! j)) \<le> s)
         \<and> (\<forall>j<k. has_room (snd (ws ! j)) \<longrightarrow> calculate_task_score i (snd (ws ! j)) < s)"
  using best_loop_spec [of i ws 0 None "- 1" "Some k" s] assms
  by (auto simp add: find_best_def)

lemma find_best_None:
  assumes "find_best i ws = (None, s)"
  shows "s = - 1 \<and> (\<forall>j<length ws. \<not> has_room (snd (ws ! j)))"
proof -
  have "\<not> calculate_task_score i w \<le> - 1" for w
    using score_nonneg [of i w] by linarith
  then show ?thesis
    using best_loop_spec [of i ws 0 None "- 1" None s] assms
    by (auto simp add: find_best_def)
qed

section \<open>The capacity invariant\<close>

lemma loads_ok_update:
  assumes "loads_ok ws" "load_ok w"
  shows "loads_ok (ws[k := (intern_id, w)])"
proof -
  have "set (ws[k := (intern_id, w)]) \<subseteq> insert (intern_id, w) (set ws)"
    by (rule set_update_subset_insert)
  with assms show ?thesis
    by (auto simp add: loads_ok_def list_all_iff)
qed

lemma process_issue_loads_ok:
  assumes "loads_ok (interns st)"
  shows "loads_ok (interns (process_issue commit i st))"
proof (cases "find_best i (interns st)")
  case (Pair b s)
  show ?thesis
  proof (cases b)
    case None
    with Pair assms show ?thesis by (simp add: process_issue_def)
  next
    case (Some k)
    obtain intern_id w where e: "interns st ! k = (intern_id, w)" by (cases "interns st ! k")
    from find_best_Some Pair Some have k: "k < length (interns st)" "has_room (snd (interns st ! k))"
      by blast+
    from assms k(1) e have "load_ok w"
      by (auto simp add: loads_ok_def list_all_length)
    with k(2) e have "load_ok (w\<lparr>current_tasks := current_tasks w + 1\<rparr>)"
      by (simp add: load_ok_def has_room_def)
    then have "loads_ok ((interns st)[k := (intern_id, w\<lparr>current_tasks := current_tasks w + 1\<rparr>)])"
      using assms by (simp add: loads_ok_update)
    with Pair Some e assms show ?thesis
      by (simp add: process_issue_def Let_def)
  qed
qed

lemma loop_states_loads_ok:
  "loads_ok (interns st) \<Longrightarrow>
     list_all (\<lambda>st'. loads_ok (interns st')) (loop_states commit m issues st)"
  by (induction issues arbitrary: st) (simp_all add: process_issue_loads_ok)

lemma last_loop_states: "last (loop_states commit m issues st) = assign_loop commit m issues st"
proof (induction issues arbitrary: st)
  case Nil show ?case by simp
next
  case (Cons i issues)
  have "loop_states commit m issues st' \<noteq> []" for st' by (cases issues) simp_all
  with Cons show ?case by simp
qed

lemma find_best_excludes:
  "max_tasks (snd (ws ! j)) \<le> current_tasks (snd (ws ! j)) \<Longrightarrow> fst (find_best i ws) \<noteq> Some j"
  using find_best_Some [of i ws j "snd (find_best i ws)"]
  by (cases "find_best i ws") (auto simp add: has_room_def)

text \<open>
  Claim C1. The selection loop never picks a worker whose current load has reached its
  capacity, whatever the worker would score. Hence, when every seeded load lies between 0
  and the capacity, so does every load in every state of the run, before and after each
  assignment.
\<close>

theorem capacity_invariant:
  assumes "loads_ok (seed workload ws)"
  shows "list_all (\<lambda>st. loads_ok (interns st)) (run_states commit workload unassigned_issues m ws)
     \<and> last (run_states commit workload unassigned_issues m ws)
         = assign_tasks commit workload unassigned_issues m ws
     \<and> (\<forall>i ws' j. max_tasks (snd (ws' ! j)) \<le> current_tasks (snd (ws' ! j))
           \<longrightarrow> fst (find_best i ws') \<noteq> Some j)"
  using assms
  by (simp add: run_states_def assign_tasks_def Let_def loop_states_loads_ok last_loop_states
      find_best_excludes)


theorem capacity_invariant_witness:
  "loads_ok (seed [''C'' \<mapsto> 1] [(''a'', worker_A), (''c'', worker_C)])
   \<and> list_all (\<lambda>st. loads_ok (interns st))
        (run_states (\<lambda>n i u. True) [''C'' \<mapsto> 1] [item_I1] 10 [(''a'', worker_A), (''c'', worker_C)])
   \<and> max_tasks (snd ([(''c'', worker_C)] ! 0)) \<le> current_tasks (snd ([(''c'', worker_C)] ! 0))
   \<and> fst (find_best item_I1 [(''c'', worker_C)]) \<noteq> Some 0"
proof -
  have h: "loads_ok (seed [''C'' \<mapsto> 1] [(''a'', worker_A), (''c'', worker_C)])"
    by (simp add: loads_ok_def load_ok_def seed_def seed_intern_def workload_get_def
        worker_A_def worker_C_def)
  have c: "max_tasks (snd ([(''c'', worker_C)] ! 0)) \<le> current_tasks (snd ([(''c'', worker_C)] ! 0))"
    by (simp add: worker_C_def)
  note t = capacity_invariant [OF h, of "\<lambda>n i u. True" "[item_I1]" 10]
  from t have "list_all (\<lambda>st. loads_ok (interns st))
        (run_states (\<lambda>n i u. True) [''C'' \<mapsto> 1] [item_I1] 10 [(''a'', worker_A), (''c'', worker_C)])"
    by (rule conjunct1)
  moreover from t c have "fst (find_best item_I1 [(''c'', worker_C)]) \<noteq> Some 0"
    by blast
  ultimately show ?thesis using h c by blast
qed

section \<open>Items that are left unassigned\<close>

lemma process_issue_unsuitable:
  assumes "list_all (\<lambda>entry. has_room (snd entry) \<longrightarrow> calculate_task_score i (snd entry) \<le> 0)
             (interns st)"
  shows "process_issue commit i st = st\<lparr>outcomes := outcomes st @ [NoSuitable i]\<rparr>"
proof (cases "find_best i (interns st)")
  case (Pair b s)
  show ?thesis
  proof (cases b)
    case None
    with Pair show ?thesis by (simp add: process_issue_def)
  next
    case (Some k)
    from find_best_Some Pair Some
    have "k < length (interns st)" "has_room (snd (interns st ! k))"
      "s = calculate_task_score i (snd (interns st ! k))" by blast+
    with assms have "\<not> 0 < s" by (auto simp add: list_all_length)
    with Pair Some show ?thesis by (simp add: process_issue_def)
  qed
qed

lemma assign_loop_all_full:
  assumes "list_all (\<lambda>entry. \<not> has_room (snd entry)) (interns st)" "assignments_made st < m"
  shows "assign_loop commit m issues st = st\<lparr>outcomes := outcomes st @ map NoSuitable issues\<rparr>"
  using assms
proof (induction issues arbitrary: st)
  case Nil
  show ?case by simp
next
  case (Cons i issues)
  from Cons.prems(1)
  have "list_all (\<lambda>entry. has_room (snd entry) \<longrightarrow> calculate_task_score i (snd entry) \<le> 0) (interns st)"
    by (simp add: list_all_iff)
  then have p: "process_issue commit i st = st\<lparr>outcomes := outcomes st @ [NoSuitable i]\<rparr>"
    by (rule process_issue_unsuitable)
  with Cons.prems Cons.IH [of "st\<lparr>outcomes := outcomes st @ [NoSuitable i]\<rparr>"]
  show ?case by simp
qed

text \<open>
  Claim C7. When no worker with room scores above 0 on an item (in particular when no
  worker has room), the loop body changes nothing but the report: no commit is attempted,
  no load and no counter moves, and the item is reported as having no suitable intern. When
  every worker is at full capacity after seeding, every item is skipped in this way and the
  run ends in the seeded state. The model has no error value: the loop raises nothing.
\<close>

theorem unsuitable_items_skipped:
  "(list_all (\<lambda>entry. has_room (snd entry) \<longrightarrow> calculate_task_score i (snd entry) \<le> 0) (interns st)
      \<longrightarrow> process_issue commit i st = st\<lparr>outcomes := outcomes st @ [NoSuitable i]\<rparr>)
   \<and> (list_all (\<lambda>entry. \<not> has_room (snd entry)) (seed workload ws) \<and> 0 < m
      \<longrightarrow> assign_tasks commit workload unassigned_issues m ws
          = \<lparr>interns = seed workload ws, assignments_made = 0,
             outcomes = map NoSuitable (sort_issues unassigned_issues)\<rparr>)
   \<and> (list_all (\<lambda>entry. \<not> has_room (snd entry)) (seed workload ws) \<and> m \<le> 0
      \<longrightarrow> assign_tasks commit workload unassigned_issues m ws
          = \<lparr>interns = seed workload ws, assignments_made = 0, outcomes = []\<rparr>)"
proof (intro conjI impI)
  assume "list_all (\<lambda>entry. has_room (snd entry) \<longrightarrow> calculate_task_score i (snd entry) \<le> 0) (interns st)"
  then show "process_issue commit i st = st\<lparr>outcomes := outcomes st @ [NoSuitable i]\<rparr>"
    by (rule process_issue_unsuitable)
next
  assume a: "list_all (\<lambda>entry. \<not> has_room (snd entry)) (seed workload ws) \<and> 0 < m"
  then show "assign_tasks commit workload unassigned_issues m ws
          = \<lparr>interns = seed workload ws, assignments_made = 0,
             outcomes = map NoSuitable (sort_issues unassigned_issues)\<rparr>"
    using assign_loop_all_full [of "\<lparr>interns = seed workload ws, assignments_made = 0, outcomes = []\<rparr>"
        m commit "sort_issues unassigned_issues"]
    by (auto simp add: assign_tasks_def Let_def sort_issues_def)
next
  assume "list_all (\<lambda>entry. \<not> has_room (snd entry)) (seed workload ws) \<and> m \<le> 0"
  then show "assign_tasks commit workload unassigned_issues m ws
          = \<lparr>interns = seed workload ws, assignments_made = 0, outcomes = []\<rparr>"
    by (simp add: assign_tasks_def Let_def assign_loop_stop)
qed

theorem unsuitable_items_skipped_witness:
  "list_all (\<lambda>entry. has_room (snd entry) \<longrightarrow> calculate_task_score item_I0 (snd entry) \<le> 0)
      (interns \<lparr>interns = [(''b'', worker_B)], assignments_made = 0, outcomes = []\<rparr>)
   \<and> has_room worker_B
   \<and> process_issue (\<lambda>n i u. True) item_I0
        \<lparr>interns = [(''b'', worker_B)], assignments_made = 0, outcomes = []\<rparr>
      = \<lparr>interns = [(''b'', worker_B)], assignments_made = 0, outcomes = [NoSuitable item_I0]\<rparr>
   \<and> list_all (\<lambda>entry. \<not> has_room (snd entry)) (seed [''C'' \<mapsto> 1] [(''c'', worker_C)])
   \<and> (0::int) < 10
   \<and> assign_tasks (\<lambda>n i u. True) [''C'' \<mapsto> 1] [item_I1] 10 [(''c'', worker_C)]
      = \<lparr>interns = seed [''C'' \<mapsto> 1] [(''c'', worker_C)], assignments_made = 0,
         outcomes = map NoSuitable (sort_issues [item_I1])\<rparr>"
proof -
  have s: "calculate_task_score item_I0 worker_B = 0"
    by (simp add: calculate_task_score_def item_I0_def worker_B_def issue_labels_of_def
        issue_body_of_def skill_step_def preference_step_def)
  have r: "has_room worker_B" by (simp add: has_room_def worker_B_def)
  have h1: "list_all (\<lambda>entry. has_room (snd entry) \<longrightarrow> calculate_task_score item_I0 (snd entry) \<le> 0)
      (interns \<lparr>interns = [(''b'', worker_B)], assignments_made = 0, outcomes = []\<rparr>)"
    by (simp add: s)
  have h2: "list_all (\<lambda>entry. \<not> has_room (snd entry)) (seed [''C'' \<mapsto> 1] [(''c'', worker_C)])"
    by (simp add: seed_def seed_intern_def workload_get_def has_room_def worker_C_def)
  have h3: "(0::int) < 10" by simp
  note t1 = unsuitable_items_skipped [of item_I0
      "\<lparr>interns = [(''b'', worker_B)], assignments_made = 0, outcomes = []\<rparr>" "\<lambda>n i u. True"
      "[''C'' \<mapsto> 1]" "[(''c'', worker_C)]" 10 "[item_I1]"]
  from t1 h1 have c1: "process_issue (\<lambda>n i u. True) item_I0
        \<lparr>interns = [(''b'', worker_B)], assignments_made = 0, outcomes = []\<rparr>
      = \<lparr>interns = [(''b'', worker_B)], assignments_made = 0, outcomes = [NoSuitable item_I0]\<rparr>"
    by simp
  from t1 h2 h3 have c2: "assign_tasks (\<lambda>n i u. True) [''C'' \<mapsto> 1] [item_I1] 10 [(''c'', worker_C)]
      = \<lparr>interns = seed [''C'' \<mapsto> 1] [(''c'', worker_C)], assignments_made = 0,
         outcomes = map NoSuitable (sort_issues [item_I1])\<rparr>"
    by blast
  from h1 r c1 h2 h3 c2 show ?thesis by blast
qed

section \<open>Failed commits\<close>

lemmas score_defs = calculate_task_score_def issue_labels_of_def issue_body_of_def
  skill_step_def preference_step_def lower_def lower_char_def

lemma score_I1_A: "calculate_task_score item_I1 worker_A = 13 / 2"
  by (simp add: score_defs item_I1_def worker_A_def)

lemma score_I1_B: "calculate_task_score item_I1 worker_B = 1"
  by (simp add: score_defs item_I1_def worker_B_def)

lemma process_issue_commit_fails:
  assumes "find_best i (interns st) = (Some k, s)" "0 < s"
    "\<not> commit (length (attempts (outcomes st))) i (username (snd (interns st ! k)))"
  shows "process_issue commit i st
         = st\<lparr>outcomes := outcomes st @ [AssignError i (username (snd (interns st ! k)))]\<rparr>"
  using assms by (cases "interns st ! k") (simp add: process_issue_def)

text \<open>
  Claim C5. When the call \<open>add_to_assignees\<close> for the selected worker fails, the loop
  body only reports the error: no assignment is recorded, every worker's load is what it
  was before the attempt, one attempt (for the selected worker, no other) was made, the
  exception does not leave the loop, and the loop goes on with the next issue.
\<close>

theorem failed_commit_skips_item:
  assumes "find_best i (interns st) = (Some k, s)" "0 < s"
    "\<not> commit (length (attempts (outcomes st))) i (username (snd (interns st ! k)))"
  shows "process_issue commit i st
           = st\<lparr>outcomes := outcomes st @ [AssignError i (username (snd (interns st ! k)))]\<rparr>
     \<and> interns (process_issue commit i st) = interns st
     \<and> assignments (outcomes (process_issue commit i st)) = assignments (outcomes st)
     \<and> attempts (outcomes (process_issue commit i st))
         = attempts (outcomes st) @ [(i, username (snd (interns st ! k)))]
     \<and> (assignments_made st < m \<longrightarrow>
          assign_loop commit m (i # issues) st
          = assign_loop commit m issues
              (st\<lparr>outcomes := outcomes st @ [AssignError i (username (snd (interns st ! k)))]\<rparr>))"
  using assms process_issue_commit_fails [of i st k s commit]
  by (simp add: assignments_append attempts_append)

lemma find_best_I1_A: "find_best item_I1 [(''a'', worker_A)] = (Some 0, 13 / 2)"
  by (simp add: find_best_def score_I1_A) (simp add: worker_A_def)

theorem failed_commit_skips_item_witness:
  "find_best item_I1 (interns \<lparr>interns = [(''a'', worker_A)], assignments_made = 0, outcomes = []\<rparr>)
     = (Some 0, 13 / 2)
   \<and> (0::rat) < 13 / 2
   \<and> process_issue (\<lambda>n i u. False) item_I1
        \<lparr>interns = [(''a'', worker_A)], assignments_made = 0, outcomes = []\<rparr>
      = \<lparr>interns = [(''a'', worker_A)], assignments_made = 0,
         outcomes = [AssignError item_I1 ''A'']\<rparr>"
proof -
  have h1: "find_best item_I1
      (interns \<lparr>interns = [(''a'', worker_A)], assignments_made = 0, outcomes = []\<rparr>)
     = (Some 0, 13 / 2)" by (simp add: find_best_I1_A)
  have h2: "(0::rat) < 13 / 2" by simp
  have h3: "\<not> (\<lambda>n i u. False)
      (length (attempts (outcomes \<lparr>interns = [(''a'', worker_A)], assignments_made = 0, outcomes = []\<rparr>)))
      item_I1
      (username (snd (interns \<lparr>interns = [(''a'', worker_A)], assignments_made = 0, outcomes = []\<rparr> ! 0)))"
    by simp
  have u: "username worker_A = ''A''" by (simp add: worker_A_def)
  from failed_commit_skips_item [OF h1 h2 h3, of 1 "[]"]
  have "process_issue (\<lambda>n i u. False) item_I1
        \<lparr>interns = [(''a'', worker_A)], assignments_made = 0, outcomes = []\<rparr>
      = \<lparr>interns = [(''a'', worker_A)], assignments_made = 0,
         outcomes = [AssignError item_I1 ''A'']\<rparr>"
    by (simp add: u)
  with h1 h2 show ?thesis by blast
qed

lemma retry_run:
  "outcomes (assign_tasks fail_first Map.empty [item_I1, item_I1] 1 [(''a'', worker_A)])
   = [AssignError item_I1 ''A'', Assigned item_I1 ''A'' (13 / 2)]"
proof -
  have k: "priority_key item_I1 = 0"
    by (simp add: priority_key_def priority_order_def item_I1_def)
  have sd: "seed Map.empty [(''a'', worker_A)] = [(''a'', worker_A)]"
    by (simp add: seed_def seed_intern_def workload_get_def worker_A_def)
  have u: "username worker_A = ''A''" by (simp add: worker_A_def)
  have f: "find_best item_I1 [(''a'', worker_A)] = (Some 0, 13 / 2)" by (rule find_best_I1_A)
  have p1: "process_issue fail_first item_I1
        \<lparr>interns = [(''a'', worker_A)], assignments_made = 0, outcomes = []\<rparr>
      = \<lparr>interns = [(''a'', worker_A)], assignments_made = 0, outcomes = [AssignError item_I1 ''A'']\<rparr>"
    by (simp add: process_issue_def f u fail_first_def)
  have p2: "outcomes (process_issue fail_first item_I1
        \<lparr>interns = [(''a'', worker_A)], assignments_made = 0, outcomes = [AssignError item_I1 ''A'']\<rparr>)
      = [AssignError item_I1 ''A'', Assigned item_I1 ''A'' (13 / 2)]"
    by (simp add: process_issue_def f u fail_first_def)
  show ?thesis
    by (simp add: assign_tasks_def Let_def sort_issues_def k sd p1 p2)
qed

text \<open>
  Claim C10. The counter \<open>assignments_made\<close> counts the recorded assignments and nothing
  else: it equals their number at the end of every run, a failed commit leaves it where it
  was, and the number of recorded assignments is at most the bound. The number of attempts
  is not bounded by it: with bound 1, one worker, two items and a tracker that rejects only
  the first call, the run makes two attempts and records one assignment.
\<close>

theorem bound_counts_successes:
  "counted (assign_tasks commit workload unassigned_issues m ws)
   \<and> length (assignments (outcomes (assign_tasks commit workload unassigned_issues m ws))) \<le> nat m
   \<and> (find_best i (interns st) = (Some k, s) \<and> 0 < s
        \<and> \<not> commit (length (attempts (outcomes st))) i (username (snd (interns st ! k)))
      \<longrightarrow> assignments_made (process_issue commit i st) = assignments_made st)
   \<and> length (attempts (outcomes
        (assign_tasks fail_first Map.empty [item_I1, item_I1] 1 [(''a'', worker_A)]))) = 2
   \<and> length (assignments (outcomes
        (assign_tasks fail_first Map.empty [item_I1, item_I1] 1 [(''a'', worker_A)]))) = 1"
proof (intro conjI impI)
  show "counted (assign_tasks commit workload unassigned_issues m ws)"
    by (rule assign_tasks_counted)
  show "length (assignments (outcomes (assign_tasks commit workload unassigned_issues m ws))) \<le> nat m"
    by (rule length_assignments_le)
  show "length (attempts (outcomes
        (assign_tasks fail_first Map.empty [item_I1, item_I1] 1 [(''a'', worker_A)]))) = 2"
    by (simp add: retry_run)
  show "length (assignments (outcomes
        (assign_tasks fail_first Map.empty [item_I1, item_I1] 1 [(''a'', worker_A)]))) = 1"
    by (simp add: retry_run)
next
  assume "find_best i (interns st) = (Some k, s) \<and> 0 < s
        \<and> \<not> commit (length (attempts (outcomes st))) i (username (snd (interns st ! k)))"
  then show "assignments_made (process_issue commit i st) = assignments_made st"
    by (simp add: process_issue_commit_fails)
qed

theorem bound_counts_successes_witness:
  "find_best item_I1
      (interns \<lparr>interns = [(''a'', worker_A)], assignments_made = 0, outcomes = []\<rparr>)
     = (Some 0, 13 / 2)
   \<and> (0::rat) < 13 / 2
   \<and> \<not> fail_first
      (length (attempts (outcomes \<lparr>interns = [(''a'', worker_A)], assignments_made = 0, outcomes = []\<rparr>)))
      item_I1
      (username (snd (interns \<lparr>interns = [(''a'', worker_A)], assignments_made = 0, outcomes = []\<rparr> ! 0)))
   \<and> assignments_made (process_issue fail_first item_I1
        \<lparr>interns = [(''a'', worker_A)], assignments_made = 0, outcomes = []\<rparr>)
      = assignments_made \<lparr>interns = [(''a'', worker_A)], assignments_made = 0, outcomes = []\<rparr>"
proof -
  have h1: "find_best item_I1
      (interns \<lparr>interns = [(''a'', worker_A)], assignments_made = 0, outcomes = []\<rparr>)
     = (Some 0, 13 / 2)" by (simp add: find_best_I1_A)
  have h2: "(0::rat) < 13 / 2" by simp
  have h3: "\<not> fail_first
      (length (attempts (outcomes \<lparr>interns = [(''a'', worker_A)], assignments_made = 0, outcomes = []\<rparr>)))
      item_I1
      (username (snd (interns \<lparr>interns = [(''a'', worker_A)], assignments_made = 0, outcomes = []\<rparr> ! 0)))"
    by (simp add: fail_first_def)
  from h1 h2 h3
    bound_counts_successes [where commit = fail_first and i = item_I1 and k = 0 and s = "13 / 2"
      and st = "\<lparr>interns = [(''a'', worker_A)], assignments_made = 0, outcomes = []\<rparr>"]
  show ?thesis by blast
qed

section \<open>The additive scoring scheme\<close>

lemma fold_skill_step_count:
  "fold (skill_step b l) xs s
   = s + 2 * of_nat (length (filter (\<lambda>skill. str_in skill b \<or> skill \<in> set l) xs))"
  by (induction xs arbitrary: s) (simp_all add: skill_step_def)

lemma fold_preference_step_count:
  "fold (preference_step l) xs s
   = s + 3 / 2 * of_nat (length (filter (\<lambda>preference. preference \<in> set l) xs))"
  by (induction xs arbitrary: s) (simp_all add: preference_step_def)

lemma issue_body_of_lower: "issue_body_of i = lower (spec_body i)"
  by (simp add: issue_body_of_def spec_body_def lower_def split: option.splits)

lemma calculate_task_score_sum:
  "calculate_task_score i w =
     2 * of_nat (length (filter (\<lambda>skill. str_in skill (lower (spec_body i)) \<or> skill \<in> spec_tag_set i)
                    (skills w)))
     + 3 / 2 * of_nat (length (filter (\<lambda>preference. preference \<in> spec_tag_set i) (preferences w)))
     + (if ''high-priority'' \<in> spec_tag_set i then 1
        else if ''medium-priority'' \<in> spec_tag_set i then 1 / 2 else 0)
     + (if ''good first issue'' \<in> spec_tag_set i \<and> current_tasks w = 0 then 1 else 0)"
  by (simp add: calculate_task_score_def Let_def fold_skill_step_count fold_preference_step_count
      issue_body_of_lower issue_labels_of_def spec_tag_set_def)

lemma score_lower_case_skills:
  assumes "list_all (\<lambda>skill. lower skill = skill) (skills w)"
  shows "calculate_task_score i w = spec_score i w"
proof -
  have "filter (\<lambda>skill. str_in skill (lower (spec_body i)) \<or> skill \<in> spec_tag_set i) (skills w)
        = filter (spec_skill_match i) (skills w)"
    using assms by (intro filter_cong) (auto simp add: list_all_iff spec_skill_match_def)
  then show ?thesis
    by (simp add: calculate_task_score_sum spec_score_def)
qed

lemma find_best_I1_AB:
  "find_best item_I1 [(''a'', worker_A), (''b'', worker_B)] = (Some 0, 13 / 2)"
  by (simp add: find_best_def score_I1_A score_I1_B) (simp add: worker_A_def worker_B_def)

lemma scenario_A_run:
  "assign_tasks (\<lambda>n i u. True) Map.empty [item_I1] 10 [(''a'', worker_A), (''b'', worker_B)]
   = \<lparr>interns = [(''a'', worker_A\<lparr>current_tasks := 1\<rparr>), (''b'', worker_B)],
      assignments_made = 1, outcomes = [Assigned item_I1 ''A'' (13 / 2)]\<rparr>"
proof -
  have sd: "seed Map.empty [(''a'', worker_A), (''b'', worker_B)] = [(''a'', worker_A), (''b'', worker_B)]"
    by (simp add: seed_def seed_intern_def workload_get_def worker_A_def worker_B_def)
  have u: "username worker_A = ''A''" "current_tasks worker_A = 0" by (simp_all add: worker_A_def)
  show ?thesis
    by (simp add: assign_tasks_def Let_def sort_issues_def sd process_issue_def find_best_I1_AB u)
qed

text \<open>
  Claim C2 does not hold as stated. In scenario A the item carries the high-priority
  label, and the priority bonus does not depend on the worker: worker B scores 1, not 0.
  And the skill tag is compared as written with the lower-cased body: the skill
  \<open>Python\<close> does not match the body \<open>learn Python\<close>, where the scheme of the
  specification gives 2.
\<close>

theorem score_scheme_counterexample:
  "calculate_task_score item_I1 worker_B = 1
   \<and> calculate_task_score item_I1 worker_B \<noteq> 0
   \<and> spec_score item_P worker_P = 2
   \<and> calculate_task_score item_P worker_P = 0"
proof (intro conjI)
  show "calculate_task_score item_I1 worker_B = 1" by (rule score_I1_B)
  then show "calculate_task_score item_I1 worker_B \<noteq> 0" by simp
  show "spec_score item_P worker_P = 2"
    by (simp add: spec_score_def spec_skill_match_def spec_tag_set_def spec_body_def
        item_P_def worker_P_def lower_def lower_char_def)
  show "calculate_task_score item_P worker_P = 0"
    by (simp add: score_defs item_P_def worker_P_def)
qed

text \<open>
  Claim C2, amended. For every item and every worker whose skill tags are lower-case, the
  score is the additive scheme of the specification: 2 per skill tag in the tag set or in
  the body regardless of case, 1.5 per preference tag in the tag set, 1 for high priority
  or else 0.5 for medium priority, and 1 for a good first issue when the worker's load
  is 0. In scenario A, item I1 scores 6.5 with worker A and 1 with worker B, the run
  assigns I1 to A, and the load of A becomes 1 while that of B stays 0.
\<close>

theorem score_scheme:
  "(list_all (\<lambda>skill. lower skill = skill) (skills w) \<longrightarrow> calculate_task_score i w = spec_score i w)
   \<and> calculate_task_score item_I1 worker_A = 13 / 2
   \<and> calculate_task_score item_I1 worker_B = 1
   \<and> assignments (outcomes
        (assign_tasks (\<lambda>n i u. True) Map.empty [item_I1] 10 [(''a'', worker_A), (''b'', worker_B)]))
      = [(item_I1, ''A'', 13 / 2)]
   \<and> map (\<lambda>entry. current_tasks (snd entry)) (interns
        (assign_tasks (\<lambda>n i u. True) Map.empty [item_I1] 10 [(''a'', worker_A), (''b'', worker_B)]))
      = [1, 0]"
proof (intro conjI impI)
  assume "list_all (\<lambda>skill. lower skill = skill) (skills w)"
  then show "calculate_task_score i w = spec_score i w" by (rule score_lower_case_skills)
next
  show "calculate_task_score item_I1 worker_A = 13 / 2" by (rule score_I1_A)
  show "calculate_task_score item_I1 worker_B = 1" by (rule score_I1_B)
  show "assignments (outcomes
        (assign_tasks (\<lambda>n i u. True) Map.empty [item_I1] 10 [(''a'', worker_A), (''b'', worker_B)]))
      = [(item_I1, ''A'', 13 / 2)]" by (simp add: scenario_A_run)
  show "map (\<lambda>entry. current_tasks (snd entry)) (interns
        (assign_tasks (\<lambda>n i u. True) Map.empty [item_I1] 10 [(''a'', worker_A), (''b'', worker_B)]))
      = [1, 0]" by (simp add: scenario_A_run) (simp add: worker_B_def)
qed

theorem score_scheme_witness:
  "list_all (\<lambda>skill. lower skill = skill) (skills worker_A)
   \<and> calculate_task_score item_I1 worker_A = spec_score item_I1 worker_A
   \<and> spec_score item_I1 worker_A = 13 / 2"
proof -
  have h: "list_all (\<lambda>skill. lower skill = skill) (skills worker_A)"
    by (simp add: worker_A_def lower_def lower_char_def)
  from score_scheme [of worker_A item_I1] h
  have "calculate_task_score item_I1 worker_A = spec_score item_I1 worker_A"
    "calculate_task_score item_I1 worker_A = 13 / 2"
    by blast+
  with h show ?thesis by simp
qed

section \<open>Determinism and the tie-break\<close>

lemma same_answers_nth:
  assumes "same_answers c c' calls" "n < length calls" "calls ! n = (i, u)"
  shows "c n i u = c' n i u"
proof -
  from assms(2) have "enumerate 0 calls ! n = (n, calls ! n)"
    by (simp add: nth_enumerate_eq)
  moreover from assms(1,2) have "(\<lambda>(n, i, u). c n i u = c' n i u) (enumerate 0 calls ! n)"
    by (simp add: same_answers_def list_all_length)
  ultimately show ?thesis using assms(3) by simp
qed

lemma process_issue_attempts:
  "attempts (outcomes (process_issue c i st)) = attempts (outcomes st)
   \<or> (\<exists>u. attempts (outcomes (process_issue c i st)) = attempts (outcomes st) @ [(i, u)])"
  by (simp add: process_issue_def Let_def attempts_append split: prod.splits option.splits)

lemma process_issue_agree:
  assumes "\<And>u. attempts (outcomes (process_issue c i st)) = attempts (outcomes st) @ [(i, u)]
            \<Longrightarrow> c (length (attempts (outcomes st))) i u = c' (length (attempts (outcomes st))) i u"
  shows "process_issue c' i st = process_issue c i st"
proof (cases "find_best i (interns st)")
  case (Pair b s)
  show ?thesis
  proof (cases b)
    case None
    with Pair show ?thesis by (simp add: process_issue_def)
  next
    case (Some k)
    obtain intern_id w where e: "interns st ! k = (intern_id, w)" by (cases "interns st ! k")
    show ?thesis
    proof (cases "0 < s")
      case False
      with Pair Some show ?thesis by (simp add: process_issue_def)
    next
      case True
      with Pair Some e
      have "attempts (outcomes (process_issue c i st)) = attempts (outcomes st) @ [(i, username w)]"
        by (simp add: process_issue_def attempts_append)
      then have "c (length (attempts (outcomes st))) i (username w)
                 = c' (length (attempts (outcomes st))) i (username w)"
        by (rule assms)
      with Pair Some e True show ?thesis by (simp add: process_issue_def)
    qed
  qed
qed

lemma assign_loop_attempts_prefix:
  "prefix (attempts (outcomes st)) (attempts (outcomes (assign_loop c m issues st)))"
proof (induction issues arbitrary: st)
  case Nil
  show ?case by simp
next
  case (Cons i issues)
  have "prefix (attempts (outcomes st)) (attempts (outcomes (process_issue c i st)))"
    using process_issue_attempts [of c i st] by auto
  with Cons.IH [of "process_issue c i st"] show ?case
    by (auto intro: prefix_order.order_trans)
qed

lemma assign_loop_agree:
  assumes "\<And>n i u. \<lbrakk>length (attempts (outcomes st)) \<le> n;
              n < length (attempts (outcomes (assign_loop c m issues st)));
              attempts (outcomes (assign_loop c m issues st)) ! n = (i, u)\<rbrakk>
            \<Longrightarrow> c n i u = c' n i u"
  shows "assign_loop c' m issues st = assign_loop c m issues st"
  using assms
proof (induction issues arbitrary: st)
  case Nil
  show ?case by simp
next
  case (Cons i issues)
  show ?case
  proof (cases "assignments_made st \<ge> m")
    case True
    then show ?thesis by simp
  next
    case False
    let ?st1 = "process_issue c i st"
    let ?final = "assign_loop c m issues ?st1"
    have fin: "assign_loop c m (i # issues) st = ?final" using False by simp
    have pre: "prefix (attempts (outcomes ?st1)) (attempts (outcomes ?final))"
      by (rule assign_loop_attempts_prefix)
    have p: "process_issue c' i st = ?st1"
    proof (rule process_issue_agree)
      fix u
      assume a: "attempts (outcomes ?st1) = attempts (outcomes st) @ [(i, u)]"
      with pre obtain rest where r: "attempts (outcomes ?final) = attempts (outcomes st) @ [(i, u)] @ rest"
        by (auto simp add: prefix_def)
      then have "length (attempts (outcomes st)) < length (attempts (outcomes ?final))"
        "attempts (outcomes ?final) ! length (attempts (outcomes st)) = (i, u)"
        by simp_all
      with Cons.prems [of "length (attempts (outcomes st))" i u] fin
      show "c (length (attempts (outcomes st))) i u = c' (length (attempts (outcomes st))) i u"
        by simp
    qed
    have le: "length (attempts (outcomes st)) \<le> length (attempts (outcomes ?st1))"
      using process_issue_attempts [of c i st] by auto
    have "assign_loop c' m issues ?st1 = ?final"
    proof (rule Cons.IH)
      fix n j u
      assume "length (attempts (outcomes ?st1)) \<le> n" "n < length (attempts (outcomes ?final))"
        "attempts (outcomes ?final) ! n = (j, u)"
      with le fin Cons.prems [of n j u] show "c n j u = c' n j u" by simp
    qed
    with p False show ?thesis by simp
  qed
qed

lemma assign_tasks_agree:
  assumes "same_answers c c' (attempts (outcomes (assign_tasks c workload issues m ws)))"
  shows "assign_tasks c' workload issues m ws = assign_tasks c workload issues m ws"
proof (cases "issues = []")
  case True
  then show ?thesis by (simp add: assign_tasks_def)
next
  case False
  let ?st = "\<lparr>interns = seed workload ws, assignments_made = 0, outcomes = []\<rparr>"
  have r: "assign_tasks c workload issues m ws = assign_loop c m (sort_issues issues) ?st"
    using False by (simp add: assign_tasks_def)
  have "assign_loop c' m (sort_issues issues) ?st = assign_loop c m (sort_issues issues) ?st"
  proof (rule assign_loop_agree)
    fix n i u
    assume "n < length (attempts (outcomes (assign_loop c m (sort_issues issues) ?st)))"
      "attempts (outcomes (assign_loop c m (sort_issues issues) ?st)) ! n = (i, u)"
    with assms r show "c n i u = c' n i u"
      by (simp add: same_answers_nth)
  qed
  with False show ?thesis by (simp add: assign_tasks_def)
qed

lemma find_best_exists:
  assumes "j < length ws" "has_room (snd (ws ! j))"
  shows "\<exists>k s. find_best i ws = (Some k, s)"
proof (cases "find_best i ws")
  case (Pair b s)
  show ?thesis
  proof (cases b)
    case None
    with Pair find_best_None [of i ws s] assms show ?thesis by blast
  next
    case (Some k)
    with Pair show ?thesis by blast
  qed
qed

lemma process_issue_picks:
  assumes "find_best i (interns st) = (Some k, s)" "0 < s"
  shows "process_issue c i st
     = (if c (length (attempts (outcomes st))) i (username (snd (interns st ! k)))
        then st\<lparr>interns := (interns st)
                  [k := (fst (interns st ! k),
                         (snd (interns st ! k))
                           \<lparr>current_tasks := current_tasks (snd (interns st ! k)) + 1\<rparr>)],
               assignments_made := assignments_made st + 1,
               outcomes := outcomes st @ [Assigned i (username (snd (interns st ! k))) s]\<rparr>
        else st\<lparr>outcomes := outcomes st @ [AssignError i (username (snd (interns st ! k)))]\<rparr>)"
  using assms by (cases "interns st ! k") (simp add: process_issue_def)

lemma loop_states_nth0: "loop_states c m issues st ! 0 = st"
  by (cases issues) simp_all

lemma loop_states_length_le: "length (loop_states c m issues st) \<le> Suc (length issues)"
  by (induction issues arbitrary: st) simp_all

lemma loop_states_step:
  "Suc n < length (loop_states c m issues st) \<Longrightarrow>
     loop_states c m issues st ! Suc n = process_issue c (issues ! n) (loop_states c m issues st ! n)"
proof (induction issues arbitrary: st n)
  case Nil
  then show ?case by simp
next
  case (Cons i issues)
  show ?case
  proof (cases "assignments_made st \<ge> m")
    case True
    with Cons.prems show ?thesis by simp
  next
    case False
    show ?thesis
    proof (cases n)
      case 0
      with False show ?thesis by (simp add: loop_states_nth0)
    next
      case (Suc n')
      with False Cons.prems
      have "Suc n' < length (loop_states c m issues (process_issue c i st))" by simp
      from Cons.IH [OF this] False Suc show ?thesis by simp
    qed
  qed
qed

lemma loop_states_stops:
  "length (loop_states c m issues st) = Suc (length issues)
   \<or> m \<le> assignments_made (last (loop_states c m issues st))"
proof (induction issues arbitrary: st)
  case Nil
  show ?case by simp
next
  case (Cons i issues)
  have ne: "loop_states c m issues st' \<noteq> []" for st' by (cases issues) simp_all
  show ?case
  proof (cases "assignments_made st \<ge> m")
    case True
    then show ?thesis by simp
  next
    case False
    with Cons.IH [of "process_issue c i st"] ne show ?thesis by auto
  qed
qed

lemma length_sort_issues: "length (sort_issues issues) = length issues"
  by (simp add: sort_issues_def)

lemma run_states_trace:
  "run_states c workload issues m ws ! 0
     = \<lparr>interns = seed workload ws, assignments_made = 0, outcomes = []\<rparr>"
  "Suc n < length (run_states c workload issues m ws) \<Longrightarrow>
     n < length (sort_issues issues) \<and>
     run_states c workload issues m ws ! Suc n
       = process_issue c (sort_issues issues ! n) (run_states c workload issues m ws ! n)"
  "length (run_states c workload issues m ws) = Suc (length issues)
   \<or> m \<le> assignments_made (assign_tasks c workload issues m ws)"
proof -
  let ?st = "\<lparr>interns = seed workload ws, assignments_made = 0, outcomes = []\<rparr>"
  show "run_states c workload issues m ws ! 0 = ?st"
    by (simp add: run_states_def Let_def loop_states_nth0)
  show "length (run_states c workload issues m ws) = Suc (length issues)
   \<or> m \<le> assignments_made (assign_tasks c workload issues m ws)"
    using loop_states_stops [of c m "sort_issues issues" ?st]
    by (auto simp add: run_states_def assign_tasks_def Let_def last_loop_states length_sort_issues)
  assume a: "Suc n < length (run_states c workload issues m ws)"
  then have ne: "issues \<noteq> []" by (auto simp add: run_states_def Let_def)
  with a have l: "Suc n < length (loop_states c m (sort_issues issues) ?st)"
    by (simp add: run_states_def Let_def)
  with loop_states_length_le [of c m "sort_issues issues" ?st]
  have "n < length (sort_issues issues)" by linarith
  moreover from loop_states_step [OF l] ne
  have "run_states c workload issues m ws ! Suc n
       = process_issue c (sort_issues issues ! n) (run_states c workload issues m ws ! n)"
    by (simp add: run_states_def Let_def)
  ultimately show "n < length (sort_issues issues) \<and>
     run_states c workload issues m ws ! Suc n
       = process_issue c (sort_issues issues ! n) (run_states c workload issues m ws ! n)"
    by blast
qed

lemma process_issue_no_pick:
  assumes "fst (find_best i (interns st)) = None \<or> snd (find_best i (interns st)) \<le> 0"
  shows "process_issue c i st = st\<lparr>outcomes := outcomes st @ [NoSuitable i]\<rparr>"
  using assms
  by (cases "find_best i (interns st)") (auto simp add: process_issue_def split: option.splits)

text \<open>
  Claim C8. The run is a function of the unassigned issues, the worker dictionary in its
  order, the seeded loads, the bound and the tracker's answers: two runs on the same input
  whose trackers answer the calls of the first run alike end in the same state, with the
  same sequence of assignments. The run starts from the seeded state, handles the issues
  of the priority order one after the other with the loop body, and stops only at the end
  of the list or when the bound is reached. The loop body attempts the assignment to the
  worker that the selection loop returns, when the score is above 0, and reports the item
  as unsuitable otherwise. The selection loop returns a worker with room whose score is
  the greatest among the workers with room and strictly greater than the score of every
  such worker before it in the dictionary: of the workers with the greatest score the
  first one wins. It returns a worker whenever one has room.
\<close>

theorem allocation_deterministic:
  "(same_answers c c' (attempts (outcomes (assign_tasks c workload unassigned_issues m ws)))
      \<longrightarrow> assign_tasks c' workload unassigned_issues m ws
          = assign_tasks c workload unassigned_issues m ws)
   \<and> run_states c workload unassigned_issues m ws ! 0
       = \<lparr>interns = seed workload ws, assignments_made = 0, outcomes = []\<rparr>
   \<and> (Suc n < length (run_states c workload unassigned_issues m ws) \<longrightarrow>
        n < length (sort_issues unassigned_issues) \<and>
        run_states c workload unassigned_issues m ws ! Suc n
          = process_issue c (sort_issues unassigned_issues ! n)
              (run_states c workload unassigned_issues m ws ! n))
   \<and> (length (run_states c workload unassigned_issues m ws) = Suc (length unassigned_issues)
        \<or> m \<le> assignments_made (assign_tasks c workload unassigned_issues m ws))
   \<and> last (run_states c workload unassigned_issues m ws)
       = assign_tasks c workload unassigned_issues m ws
   \<and> (find_best i (interns st) = (Some k, s) \<and> 0 < s \<longrightarrow>
        process_issue c i st
        = (if c (length (attempts (outcomes st))) i (username (snd (interns st ! k)))
           then st\<lparr>interns := (interns st)
                     [k := (fst (interns st ! k),
                            (snd (interns st ! k))
                              \<lparr>current_tasks := current_tasks (snd (interns st ! k)) + 1\<rparr>)],
                  assignments_made := assignments_made st + 1,
                  outcomes := outcomes st @ [Assigned i (username (snd (interns st ! k))) s]\<rparr>
           else st\<lparr>outcomes := outcomes st @ [AssignError i (username (snd (interns st ! k)))]\<rparr>))
   \<and> (fst (find_best i (interns st)) = None \<or> snd (find_best i (interns st)) \<le> 0 \<longrightarrow>
        process_issue c i st = st\<lparr>outcomes := outcomes st @ [NoSuitable i]\<rparr>)
   \<and> (find_best i ws' = (Some k, s) \<longrightarrow>
        k < length ws' \<and> has_room (snd (ws' ! k)) \<and> s = calculate_task_score i (snd (ws' ! k))
        \<and> (\<forall>j<length ws'. has_room (snd (ws' ! j)) \<longrightarrow> calculate_task_score i (snd (ws' ! j)) \<le> s)
        \<and> (\<forall>j<k. has_room (snd (ws' ! j)) \<longrightarrow> calculate_task_score i (snd (ws' ! j)) < s))
   \<and> ((\<exists>j<length ws'. has_room (snd (ws' ! j))) \<longrightarrow> (\<exists>k' s'. find_best i ws' = (Some k', s')))"
proof (intro conjI impI)
  assume "same_answers c c' (attempts (outcomes (assign_tasks c workload unassigned_issues m ws)))"
  then show "assign_tasks c' workload unassigned_issues m ws
          = assign_tasks c workload unassigned_issues m ws"
    by (rule assign_tasks_agree)
next
  show "run_states c workload unassigned_issues m ws ! 0
       = \<lparr>interns = seed workload ws, assignments_made = 0, outcomes = []\<rparr>"
    by (rule run_states_trace(1))
  show "length (run_states c workload unassigned_issues m ws) = Suc (length unassigned_issues)
        \<or> m \<le> assignments_made (assign_tasks c workload unassigned_issues m ws)"
    by (rule run_states_trace(3))
  show "last (run_states c workload unassigned_issues m ws)
       = assign_tasks c workload unassigned_issues m ws"
    by (simp add: run_states_def assign_tasks_def Let_def last_loop_states)
next
  assume a: "Suc n < length (run_states c workload unassigned_issues m ws)"
  from run_states_trace(2) [OF a] show "n < length (sort_issues unassigned_issues)" by blast
  from run_states_trace(2) [OF a]
  show "run_states c workload unassigned_issues m ws ! Suc n
          = process_issue c (sort_issues unassigned_issues ! n)
              (run_states c workload unassigned_issues m ws ! n)" by blast
next
  assume "find_best i (interns st) = (Some k, s) \<and> 0 < s"
  then show "process_issue c i st
        = (if c (length (attempts (outcomes st))) i (username (snd (interns st ! k)))
           then st\<lparr>interns := (interns st)
                     [k := (fst (interns st ! k),
                            (snd (interns st ! k))
                              \<lparr>current_tasks := current_tasks (snd (interns st ! k)) + 1\<rparr>)],
                  assignments_made := assignments_made st + 1,
                  outcomes := outcomes st @ [Assigned i (username (snd (interns st ! k))) s]\<rparr>
           else st\<lparr>outcomes := outcomes st @ [AssignError i (username (snd (interns st ! k)))]\<rparr>)"
    using process_issue_picks [of i st k s c] by blast
next
  assume "fst (find_best i (interns st)) = None \<or> snd (find_best i (interns st)) \<le> 0"
  then show "process_issue c i st = st\<lparr>outcomes := outcomes st @ [NoSuitable i]\<rparr>"
    by (rule process_issue_no_pick)
next
  assume f: "find_best i ws' = (Some k, s)"
  note t = find_best_Some [OF f]
  from t show "k < length ws'" by blast
  from t show "has_room (snd (ws' ! k))" by blast
  from t show "s = calculate_task_score i (snd (ws' ! k))" by blast
  from t show "\<forall>j<length ws'. has_room (snd (ws' ! j)) \<longrightarrow> calculate_task_score i (snd (ws' ! j)) \<le> s"
    by blast
  from t show "\<forall>j<k. has_room (snd (ws' ! j)) \<longrightarrow> calculate_task_score i (snd (ws' ! j)) < s"
    by blast
next
  assume "\<exists>j<length ws'. has_room (snd (ws' ! j))"
  then show "\<exists>k' s'. find_best i ws' = (Some k', s')"
    using find_best_exists by blast
qed

lemma find_best_tie:
  "find_best item_I1 [(''a'', worker_A), (''a2'', worker_A)] = (Some 0, 13 / 2)"
  by (simp add: find_best_def score_I1_A) (simp add: worker_A_def)

lemma find_best_I0_B: "find_best item_I0 [(''b'', worker_B)] = (Some 0, 0)"
proof -
  have "calculate_task_score item_I0 worker_B = 0"
    by (simp add: score_defs item_I0_def worker_B_def)
  moreover have "current_tasks worker_B < max_tasks worker_B" by (simp add: worker_B_def)
  ultimately show ?thesis by (simp add: find_best_def)
qed

theorem allocation_deterministic_witness:
  "same_answers (\<lambda>n i u. True) accept_first
      (attempts (outcomes (assign_tasks (\<lambda>n i u. True) Map.empty [item_I1] 10
         [(''a'', worker_A), (''b'', worker_B)])))
   \<and> assign_tasks accept_first Map.empty [item_I1] 10 [(''a'', worker_A), (''b'', worker_B)]
      = assign_tasks (\<lambda>n i u. True) Map.empty [item_I1] 10 [(''a'', worker_A), (''b'', worker_B)]
   \<and> Suc 0 < length (run_states (\<lambda>n i u. True) Map.empty [item_I1] 10
        [(''a'', worker_A), (''b'', worker_B)])
   \<and> run_states (\<lambda>n i u. True) Map.empty [item_I1] 10 [(''a'', worker_A), (''b'', worker_B)] ! Suc 0
      = process_issue (\<lambda>n i u. True) (sort_issues [item_I1] ! 0)
          (run_states (\<lambda>n i u. True) Map.empty [item_I1] 10 [(''a'', worker_A), (''b'', worker_B)] ! 0)
   \<and> find_best item_I1
        (interns \<lparr>interns = [(''a'', worker_A), (''a2'', worker_A)], assignments_made = 0, outcomes = []\<rparr>)
      = (Some 0, 13 / 2)
   \<and> (0::rat) < 13 / 2
   \<and> outcomes (process_issue (\<lambda>n i u. True) item_I1
        \<lparr>interns = [(''a'', worker_A), (''a2'', worker_A)], assignments_made = 0, outcomes = []\<rparr>)
      = [Assigned item_I1 ''A'' (13 / 2)]
   \<and> snd (find_best item_I0
        (interns \<lparr>interns = [(''b'', worker_B)], assignments_made = 0, outcomes = []\<rparr>)) \<le> 0
   \<and> process_issue (\<lambda>n i u. True) item_I0
        \<lparr>interns = [(''b'', worker_B)], assignments_made = 0, outcomes = []\<rparr>
      = \<lparr>interns = [(''b'', worker_B)], assignments_made = 0, outcomes = [NoSuitable item_I0]\<rparr>
   \<and> has_room (snd ([(''a'', worker_A), (''a2'', worker_A)] ! 1))
   \<and> calculate_task_score item_I1 (snd ([(''a'', worker_A), (''a2'', worker_A)] ! 1)) \<le> 13 / 2
   \<and> (\<exists>j<length [(''a'', worker_A), (''a2'', worker_A)].
          has_room (snd ([(''a'', worker_A), (''a2'', worker_A)] ! j)))"
proof -
  let ?c = "\<lambda>(n::nat) (i::issue) (u::string). True"
  let ?ab = "[(''a'', worker_A), (''b'', worker_B)]"
  let ?aa = "[(''a'', worker_A), (''a2'', worker_A)]"
  let ?stA = "\<lparr>interns = ?aa, assignments_made = 0, outcomes = []\<rparr>"
  let ?stB = "\<lparr>interns = [(''b'', worker_B)], assignments_made = 0, outcomes = []\<rparr>"
  have h1: "same_answers ?c accept_first
      (attempts (outcomes (assign_tasks ?c Map.empty [item_I1] 10 ?ab)))"
    by (simp add: scenario_A_run same_answers_def accept_first_def)
  have h2: "Suc 0 < length (run_states ?c Map.empty [item_I1] 10 ?ab)"
    by (simp add: run_states_def Let_def sort_issues_def)
  have h3: "find_best item_I1 (interns ?stA) = (Some 0, 13 / 2)"
    by (simp add: find_best_tie)
  have h4: "(0::rat) < 13 / 2" by simp
  have h5: "snd (find_best item_I0 (interns ?stB)) \<le> 0"
    by (simp add: find_best_I0_B)
  have r: "has_room (snd (?aa ! 1))"
    by (simp add: has_room_def worker_A_def)
  have "has_room (snd (?aa ! 0))"
    by (simp add: has_room_def worker_A_def)
  then have h6: "\<exists>j<length ?aa. has_room (snd (?aa ! j))" by auto
  note t = allocation_deterministic [where c = ?c and c' = accept_first
      and workload = Map.empty and unassigned_issues = "[item_I1]" and m = 10
      and ws = ?ab and n = 0 and i = item_I1 and st = ?stA
      and ws' = ?aa and k = 0 and s = "13 / 2"]
  note t0 = allocation_deterministic [where c = ?c and i = item_I0 and st = ?stB]
  from t h1 have c1: "assign_tasks accept_first Map.empty [item_I1] 10 ?ab
      = assign_tasks ?c Map.empty [item_I1] 10 ?ab"
    by blast
  from t h2 have c2: "run_states ?c Map.empty [item_I1] 10 ?ab ! Suc 0
      = process_issue ?c (sort_issues [item_I1] ! 0) (run_states ?c Map.empty [item_I1] 10 ?ab ! 0)"
    by blast
  from t h3 h4 have "process_issue ?c item_I1 ?stA
        = (if ?c (length (attempts (outcomes ?stA))) item_I1 (username (snd (interns ?stA ! 0)))
           then ?stA\<lparr>interns := (interns ?stA)
                     [0 := (fst (interns ?stA ! 0),
                            (snd (interns ?stA ! 0))
                              \<lparr>current_tasks := current_tasks (snd (interns ?stA ! 0)) + 1\<rparr>)],
                  assignments_made := assignments_made ?stA + 1,
                  outcomes := outcomes ?stA @ [Assigned item_I1 (username (snd (interns ?stA ! 0))) (13 / 2)]\<rparr>
           else ?stA\<lparr>outcomes := outcomes ?stA @ [AssignError item_I1 (username (snd (interns ?stA ! 0)))]\<rparr>)"
    by blast
  then have c3: "outcomes (process_issue ?c item_I1 ?stA) = [Assigned item_I1 ''A'' (13 / 2)]"
    by (simp add: worker_A_def)
  from t0 h5 have c4: "process_issue ?c item_I0 ?stB
      = \<lparr>interns = [(''b'', worker_B)], assignments_made = 0, outcomes = [NoSuitable item_I0]\<rparr>"
    by simp
  from t h3 have "\<forall>j<length ?aa. has_room (snd (?aa ! j)) \<longrightarrow>
          calculate_task_score item_I1 (snd (?aa ! j)) \<le> 13 / 2"
    by simp
  then have "1 < length ?aa \<longrightarrow> has_room (snd (?aa ! 1)) \<longrightarrow>
          calculate_task_score item_I1 (snd (?aa ! 1)) \<le> 13 / 2"
    by (rule spec)
  with r have c5: "calculate_task_score item_I1 (snd (?aa ! 1)) \<le> 13 / 2"
    by simp
  from h1 c1 h2 c2 h3 h4 c3 h5 c4 r c5 h6 show ?thesis by blast
qed

section \<open>Suggest mode\<close>

lemma suggest_loop_eq:
  "suggest_loop workload i ws k suggestions
   = (seed workload ws, suggestions @ candidates i (seed workload ws) k)"
  by (induction ws arbitrary: k suggestions)
    (auto simp add: seed_def seed_intern_def Let_def)

lemma suggest_issue_eq:
  "suggest_issue workload i ws
   = (seed workload ws, take 3 (sort_key (\<lambda>x. - snd x) (candidates i (seed workload ws) 0)))"
  by (simp add: suggest_issue_def suggest_loop_eq)

lemma seed_idem: "seed workload (seed workload ws) = seed workload ws"
  by (induction ws) (auto simp add: seed_def seed_intern_def)

lemma suggest_assignments_eq:
  "suggest_assignments workload issues ws
   = (if issues = [] then ws else seed workload ws,
      map (\<lambda>i. (i, take 3 (sort_key (\<lambda>x. - snd x) (candidates i (seed workload ws) 0)))) issues)"
proof (induction issues arbitrary: ws)
  case Nil
  show ?case by simp
next
  case (Cons i issues)
  show ?case
    by (simp add: suggest_issue_eq Cons.IH seed_idem)
qed

text \<open>
  Claim C9. \<open>suggest_assignments\<close> never increments a load. For every item it writes
  into each worker the load that \<open>workload\<close> records for it, so after the call every
  worker carries its seeded load; with no item it touches nothing. In particular a
  dictionary that carries the seeded loads before the call is the same after it.
\<close>

theorem suggest_keeps_seeded_loads:
  "(seed workload ws = ws \<longrightarrow> fst (suggest_assignments workload issues ws) = ws)
   \<and> (issues \<noteq> [] \<longrightarrow> fst (suggest_assignments workload issues ws) = seed workload ws)
   \<and> (issues = [] \<longrightarrow> fst (suggest_assignments workload issues ws) = ws)"
  by (simp add: suggest_assignments_eq)

theorem suggest_keeps_seeded_loads_witness:
  "seed [''C'' \<mapsto> 1] [(''a'', worker_A), (''c'', worker_C)] = [(''a'', worker_A), (''c'', worker_C)]
   \<and> [item_I1] \<noteq> []
   \<and> fst (suggest_assignments [''C'' \<mapsto> 1] [item_I1] [(''a'', worker_A), (''c'', worker_C)])
      = [(''a'', worker_A), (''c'', worker_C)]
   \<and> fst (suggest_assignments [''C'' \<mapsto> 1] [item_I1] [(''a'', worker_A), (''c'', worker_C)])
      = seed [''C'' \<mapsto> 1] [(''a'', worker_A), (''c'', worker_C)]
   \<and> fst (suggest_assignments [''C'' \<mapsto> 1] [] [(''a'', worker_A), (''c'', worker_C)])
      = [(''a'', worker_A), (''c'', worker_C)]"
proof -
  have h1: "seed [''C'' \<mapsto> 1] [(''a'', worker_A), (''c'', worker_C)]
      = [(''a'', worker_A), (''c'', worker_C)]"
    by (simp add: seed_def seed_intern_def workload_get_def worker_A_def worker_C_def)
  have h2: "[item_I1] \<noteq> []" by simp
  note t1 = suggest_keeps_seeded_loads [of "[''C'' \<mapsto> 1]" "[(''a'', worker_A), (''c'', worker_C)]"
      "[item_I1]"]
  note t2 = suggest_keeps_seeded_loads [of "[''C'' \<mapsto> 1]" "[(''a'', worker_A), (''c'', worker_C)]"
      "[]"]
  from t1 h1 have c1: "fst (suggest_assignments [''C'' \<mapsto> 1] [item_I1] [(''a'', worker_A), (''c'', worker_C)])
      = [(''a'', worker_A), (''c'', worker_C)]" by blast
  from t1 h2 have c2: "fst (suggest_assignments [''C'' \<mapsto> 1] [item_I1] [(''a'', worker_A), (''c'', worker_C)])
      = seed [''C'' \<mapsto> 1] [(''a'', worker_A), (''c'', worker_C)]" by blast
  from t2 have c3: "fst (suggest_assignments [''C'' \<mapsto> 1] [] [(''a'', worker_A), (''c'', worker_C)])
      = [(''a'', worker_A), (''c'', worker_C)]" by blast
  from h1 h2 c1 c2 c3 show ?thesis by blast
qed

section \<open>Suggest mode and the committing path\<close>

lemma best_loop_fold: "best_loop i ws k acc = fold pick (candidates i ws k) acc"
proof (induction ws arbitrary: k acc)
  case Nil
  show ?case by simp
next
  case (Cons x ws)
  obtain intern_id w where x: "x = (intern_id, w)" by (cases x)
  obtain b bs where acc: "acc = (b, bs)" by (cases acc)
  show ?case
    by (simp add: x acc Cons.IH pick_def Let_def)
qed

lemma candidates_nonneg: "c \<in> set (candidates i ws k) \<Longrightarrow> 0 \<le> snd c"
  by (induction i ws k rule: candidates.induct) (auto simp add: score_nonneg split: if_splits)

lemma hd_insort_key:
  "hd (insort_key f c ys) = (if ys = [] \<or> f c \<le> f (hd ys) then c else hd ys)"
  by (cases ys) simp_all

lemma sort_key_Nil_iff: "sort_key f xs = [] \<longleftrightarrow> xs = []"
  by (cases xs) (simp_all add: insort_is_Cons)

lemma hd_sort_desc_Cons:
  "hd (sort_key (\<lambda>x. - snd x) (c # cs))
   = (if cs = [] \<or> snd (hd (sort_key (\<lambda>x. - snd x) cs)) \<le> (snd c :: rat) then c
      else hd (sort_key (\<lambda>x. - snd x) cs))"
  by (simp add: hd_insort_key sort_key_Nil_iff)

lemma fold_pick_acc:
  "fold pick cs (Some j, s)
   = (if cs = [] \<or> snd (hd (sort_key (\<lambda>x. - snd x) cs)) \<le> s then (Some j, s)
      else (Some (fst (hd (sort_key (\<lambda>x. - snd x) cs))), snd (hd (sort_key (\<lambda>x. - snd x) cs))))"
proof (induction cs arbitrary: j s)
  case Nil
  show ?case by simp
next
  case (Cons c cs)
  show ?case
  proof (cases "snd c > s")
    case True
    then have "fold pick (c # cs) (Some j, s) = fold pick cs (Some (fst c), snd c)"
      by (simp add: pick_def)
    with True show ?thesis
      unfolding hd_sort_desc_Cons Cons.IH by auto
  next
    case False
    then have "fold pick (c # cs) (Some j, s) = fold pick cs (Some j, s)"
      by (simp add: pick_def)
    with False show ?thesis
      unfolding hd_sort_desc_Cons Cons.IH by auto
  qed
qed

lemma fold_pick_init:
  assumes "cs \<noteq> []" "\<And>c. c \<in> set cs \<Longrightarrow> bs < snd c"
  shows "fold pick cs (None, bs)
         = (Some (fst (hd (sort_key (\<lambda>x. - snd x) cs))), snd (hd (sort_key (\<lambda>x. - snd x) cs)))"
proof (cases cs)
  case Nil
  with assms show ?thesis by simp
next
  case (Cons c cs')
  with assms(2) have "bs < snd c" by simp
  then have "fold pick (c # cs') (None, bs) = fold pick cs' (Some (fst c), snd c)"
    by (simp add: pick_def)
  then show ?thesis
    unfolding Cons hd_sort_desc_Cons fold_pick_acc by auto
qed

lemma find_best_sorted:
  "find_best i ws
   = (case sort_key (\<lambda>x. - snd x) (candidates i ws 0) of
        [] \<Rightarrow> (None, - 1)
      | c # rest \<Rightarrow> (Some (fst c), snd c))"
proof (cases "candidates i ws 0 = []")
  case True
  then show ?thesis by (simp add: find_best_def best_loop_fold)
next
  case False
  have "- 1 < snd c" if "c \<in> set (candidates i ws 0)" for c
    using candidates_nonneg [OF that] by linarith
  with False have "fold pick (candidates i ws 0) (None, - 1)
     = (Some (fst (hd (sort_key (\<lambda>x. - snd x) (candidates i ws 0)))),
        snd (hd (sort_key (\<lambda>x. - snd x) (candidates i ws 0))))"
    by (intro fold_pick_init) simp_all
  moreover from False have "sort_key (\<lambda>x. - snd x) (candidates i ws 0) \<noteq> []"
    by (simp add: sort_key_Nil_iff)
  ultimately show ?thesis
    by (cases "sort_key (\<lambda>x. - snd x) (candidates i ws 0)")
      (simp_all add: find_best_def best_loop_fold)
qed

lemma case_take3:
  "(case take 3 xs of [] \<Rightarrow> a | c # rest \<Rightarrow> f c) = (case xs of [] \<Rightarrow> a | c # rest \<Rightarrow> f c)"
  by (cases xs) (simp_all add: numeral_3_eq_3)

lemma find_best_suggest:
  "find_best i (seed workload ws)
   = (case snd (suggest_issue workload i ws) of
        [] \<Rightarrow> (None, - 1)
      | c # rest \<Rightarrow> (Some (fst c), snd c))"
  by (simp add: suggest_issue_eq case_take3 find_best_sorted)

lemma process_issue_assignments:
  "assignments (outcomes (process_issue c i st)) = assignments (outcomes st)
   \<or> (\<exists>a. assignments (outcomes (process_issue c i st)) = assignments (outcomes st) @ [a])"
  by (simp add: process_issue_def Let_def assignments_append split: prod.splits option.splits)

lemma assign_loop_assignments_prefix:
  "prefix (assignments (outcomes st)) (assignments (outcomes (assign_loop c m issues st)))"
proof (induction issues arbitrary: st)
  case Nil
  show ?case by simp
next
  case (Cons i issues)
  have "prefix (assignments (outcomes st)) (assignments (outcomes (process_issue c i st)))"
    using process_issue_assignments [of c i st] by auto
  with Cons.IH [of "process_issue c i st"] show ?case
    by (auto intro: prefix_order.order_trans)
qed

lemma first_item_assigned:
  assumes "unassigned_issues \<noteq> []" "0 < m"
    "snd (suggest_issue workload (hd (sort_issues unassigned_issues)) ws) = (k, s) # rest"
    "0 < s"
    "c 0 (hd (sort_issues unassigned_issues)) (username (snd (seed workload ws ! k)))"
  shows "\<exists>more. assignments (outcomes (assign_tasks c workload unassigned_issues m ws))
           = (hd (sort_issues unassigned_issues), username (snd (seed workload ws ! k)), s) # more"
proof -
  let ?st = "\<lparr>interns = seed workload ws, assignments_made = 0, outcomes = []\<rparr>"
  from assms(1) have "sort_issues unassigned_issues \<noteq> []"
    by (simp add: sort_issues_def sort_key_Nil_iff)
  then obtain i0 issues where srt: "sort_issues unassigned_issues = i0 # issues"
    by (cases "sort_issues unassigned_issues") simp_all
  from assms(3) srt have f: "find_best i0 (seed workload ws) = (Some k, s)"
    by (simp add: find_best_suggest)
  obtain intern_id w where e: "seed workload ws ! k = (intern_id, w)"
    by (cases "seed workload ws ! k")
  from f e assms(4,5) srt
  have p: "assignments (outcomes (process_issue c i0 ?st)) = [(i0, username w, s)]"
    by (simp add: process_issue_def)
  have "prefix (assignments (outcomes (process_issue c i0 ?st)))
          (assignments (outcomes (assign_loop c m issues (process_issue c i0 ?st))))"
    by (rule assign_loop_assignments_prefix)
  with p obtain more where
    "assignments (outcomes (assign_loop c m issues (process_issue c i0 ?st)))
       = (i0, username w, s) # more"
    by (auto simp add: prefix_def)
  with assms(1,2) srt e show ?thesis
    by (simp add: assign_tasks_def)
qed

lemma score_D_E:
  "calculate_task_score item_I1 worker_D = 3" "calculate_task_score item_I1 worker_E = 3"
  "calculate_task_score item_J worker_D = 2" "calculate_task_score item_J worker_E = 2"
  by (simp_all add: score_defs item_I1_def item_J_def worker_D_def worker_E_def)

lemma seed_D_E:
  "seed Map.empty [(''d'', worker_D), (''e'', worker_E)] = [(''d'', worker_D), (''e'', worker_E)]"
  by (simp add: seed_def seed_intern_def workload_get_def worker_D_def worker_E_def)

lemma candidates_D_E:
  "candidates item_I1 [(''d'', worker_D), (''e'', worker_E)] 0 = [(0, 3), (1, 3)]"
  "candidates item_J [(''d'', worker_D), (''e'', worker_E)] 0 = [(0, 2), (1, 2)]"
proof -
  have r: "current_tasks worker_D < max_tasks worker_D" "current_tasks worker_E < max_tasks worker_E"
    by (simp_all add: worker_D_def worker_E_def)
  show "candidates item_I1 [(''d'', worker_D), (''e'', worker_E)] 0 = [(0, 3), (1, 3)]"
    by (simp add: score_D_E r)
  show "candidates item_J [(''d'', worker_D), (''e'', worker_E)] 0 = [(0, 2), (1, 2)]"
    by (simp add: score_D_E r)
qed

lemma suggest_D_E:
  "snd (suggest_assignments Map.empty [item_I1, item_J] [(''d'', worker_D), (''e'', worker_E)])
   = [(item_I1, [(0, 3), (1, 3)]), (item_J, [(0, 2), (1, 2)])]"
proof -
  have s1: "take 3 (sort_key (\<lambda>x. - snd x) [(0::nat, 3::rat), (1, 3)]) = [(0, 3), (1, 3)]"
    by simp
  have s2: "take 3 (sort_key (\<lambda>x. - snd x) [(0::nat, 2::rat), (1, 2)]) = [(0, 2), (1, 2)]"
    by simp
  show ?thesis
    by (simp only: suggest_assignments_eq snd_conv seed_D_E candidates_D_E list.map s1 s2)
qed

lemma run_D_E:
  "assignments (outcomes (assign_tasks accept_all Map.empty [item_I1, item_J] 10
      [(''d'', worker_D), (''e'', worker_E)]))
   = [(item_I1, ''D'', 3), (item_J, ''E'', 2)]"
proof -
  have k: "priority_key item_I1 = 0" "priority_key item_J = 3"
    by (simp_all add: priority_key_def priority_order_def item_I1_def item_J_def)
  have srt: "sort_issues [item_I1, item_J] = [item_I1, item_J]"
    by (simp add: sort_issues_def k)
  have f1: "find_best item_I1 [(''d'', worker_D), (''e'', worker_E)] = (Some 0, 3)"
    by (simp add: find_best_def score_D_E) (simp add: worker_D_def worker_E_def)
  have f2: "find_best item_J [(''d'', worker_D\<lparr>current_tasks := 1\<rparr>), (''e'', worker_E)] = (Some 1, 2)"
    by (simp add: find_best_def score_D_E) (simp add: worker_D_def worker_E_def)
  have u: "username worker_D = ''D''" "username worker_E = ''E''" "current_tasks worker_D = 0"
    by (simp_all add: worker_D_def worker_E_def)
  have p1: "process_issue accept_all item_I1
        \<lparr>interns = [(''d'', worker_D), (''e'', worker_E)], assignments_made = 0, outcomes = []\<rparr>
      = \<lparr>interns = [(''d'', worker_D\<lparr>current_tasks := 1\<rparr>), (''e'', worker_E)],
         assignments_made = 1, outcomes = [Assigned item_I1 ''D'' 3]\<rparr>"
    by (simp add: process_issue_def f1 u accept_all_def)
  have p2: "outcomes (process_issue accept_all item_J
        \<lparr>interns = [(''d'', worker_D\<lparr>current_tasks := 1\<rparr>), (''e'', worker_E)],
         assignments_made = 1, outcomes = [Assigned item_I1 ''D'' 3]\<rparr>)
      = [Assigned item_I1 ''D'' 3, Assigned item_J ''E'' 2]"
    by (simp add: process_issue_def f2 u accept_all_def)
  show ?thesis
    by (simp add: assign_tasks_def Let_def srt seed_D_E p1 p2)
qed

text \<open>
  Claim C4 does not hold as stated. Suggest mode resets every load to its seeded value
  for each item, so the loads do not evolve as they do in the committing path. With two
  workers D and E of capacity 1 and the items I1 and J, suggest mode ranks D (position 0)
  first for both items, while the committing path assigns I1 to D and then, D being full,
  J to E.
\<close>

theorem suggest_matches_commit_counterexample:
  "snd (suggest_assignments Map.empty [item_I1, item_J] [(''d'', worker_D), (''e'', worker_E)])
     = [(item_I1, [(0, 3), (1, 3)]), (item_J, [(0, 2), (1, 2)])]
   \<and> username (snd ([(''d'', worker_D), (''e'', worker_E)] ! 0)) = ''D''
   \<and> assignments (outcomes (assign_tasks accept_all Map.empty [item_I1, item_J] 10
        [(''d'', worker_D), (''e'', worker_E)]))
     = [(item_I1, ''D'', 3), (item_J, ''E'', 2)]
   \<and> ''D'' \<noteq> ''E''"
proof (intro conjI)
  show "snd (suggest_assignments Map.empty [item_I1, item_J] [(''d'', worker_D), (''e'', worker_E)])
     = [(item_I1, [(0, 3), (1, 3)]), (item_J, [(0, 2), (1, 2)])]"
    by (rule suggest_D_E)
  show "username (snd ([(''d'', worker_D), (''e'', worker_E)] ! 0)) = ''D''"
    by (simp add: worker_D_def)
  show "assignments (outcomes (assign_tasks accept_all Map.empty [item_I1, item_J] 10
        [(''d'', worker_D), (''e'', worker_E)]))
     = [(item_I1, ''D'', 3), (item_J, ''E'', 2)]"
    by (rule run_D_E)
  show "''D'' \<noteq> ''E''" by simp
qed

text \<open>
  Claim C4, amended. Suggest mode takes the items in their input order and, for each,
  scores with the same scoring function the workers whose seeded load is below their
  capacity, orders them by descending score, equal scores in dictionary order, and returns
  the first three; it records and commits nothing. For each item the top-ranked candidate
  and its score are what the selection loop of the committing path returns at the seeded
  loads. Hence for the first item of the priority order, when the bound is positive, the
  top score is above 0 and the tracker accepts the first call, the committing path assigns
  that item to the top-ranked candidate.
\<close>

theorem suggest_top_is_selection:
  "snd (suggest_assignments workload issues ws)
     = map (\<lambda>i. (i, take 3 (sort_key (\<lambda>x. - snd x) (candidates i (seed workload ws) 0)))) issues
   \<and> find_best i (seed workload ws)
     = (case snd (suggest_issue workload i ws) of
          [] \<Rightarrow> (None, - 1)
        | c # rest \<Rightarrow> (Some (fst c), snd c))
   \<and> (unassigned_issues \<noteq> [] \<and> 0 < m
        \<and> snd (suggest_issue workload (hd (sort_issues unassigned_issues)) ws) = (k, s) # rest
        \<and> 0 < s
        \<and> c 0 (hd (sort_issues unassigned_issues)) (username (snd (seed workload ws ! k)))
      \<longrightarrow> (\<exists>more. assignments (outcomes (assign_tasks c workload unassigned_issues m ws))
             = (hd (sort_issues unassigned_issues), username (snd (seed workload ws ! k)), s) # more))"
proof (intro conjI impI)
  show "snd (suggest_assignments workload issues ws)
     = map (\<lambda>i. (i, take 3 (sort_key (\<lambda>x. - snd x) (candidates i (seed workload ws) 0)))) issues"
    by (simp add: suggest_assignments_eq)
  show "find_best i (seed workload ws)
     = (case snd (suggest_issue workload i ws) of
          [] \<Rightarrow> (None, - 1)
        | c # rest \<Rightarrow> (Some (fst c), snd c))"
    by (rule find_best_suggest)
next
  assume "unassigned_issues \<noteq> [] \<and> 0 < m
        \<and> snd (suggest_issue workload (hd (sort_issues unassigned_issues)) ws) = (k, s) # rest
        \<and> 0 < s
        \<and> c 0 (hd (sort_issues unassigned_issues)) (username (snd (seed workload ws ! k)))"
  then show "\<exists>more. assignments (outcomes (assign_tasks c workload unassigned_issues m ws))
             = (hd (sort_issues unassigned_issues), username (snd (seed workload ws ! k)), s) # more"
    using first_item_assigned [of unassigned_issues m workload ws k s rest c] by blast
qed

lemma sort_I1_J: "sort_issues [item_I1, item_J] = [item_I1, item_J]"
proof -
  have "priority_key item_I1 = 0" "priority_key item_J = 3"
    by (simp_all add: priority_key_def priority_order_def item_I1_def item_J_def)
  then show ?thesis by (simp add: sort_issues_def)
qed

theorem suggest_top_is_selection_witness:
  "[item_I1, item_J] \<noteq> [] \<and> (0::int) < 10
   \<and> snd (suggest_issue Map.empty (hd (sort_issues [item_I1, item_J]))
          [(''d'', worker_D), (''e'', worker_E)]) = (0, 3) # [(1, 3)]
   \<and> (0::rat) < 3
   \<and> accept_all 0 (hd (sort_issues [item_I1, item_J]))
        (username (snd (seed Map.empty [(''d'', worker_D), (''e'', worker_E)] ! 0)))
   \<and> (\<exists>more. assignments (outcomes (assign_tasks accept_all Map.empty [item_I1, item_J] 10
          [(''d'', worker_D), (''e'', worker_E)]))
        = (hd (sort_issues [item_I1, item_J]),
           username (snd (seed Map.empty [(''d'', worker_D), (''e'', worker_E)] ! 0)), 3) # more)"
proof -
  have h1: "[item_I1, item_J] \<noteq> []" by simp
  have h2: "(0::int) < 10" by simp
  have s1: "take 3 (sort_key (\<lambda>x. - snd x) [(0::nat, 3::rat), (1, 3)]) = [(0, 3), (1, 3)]"
    by simp
  have h3: "snd (suggest_issue Map.empty (hd (sort_issues [item_I1, item_J]))
          [(''d'', worker_D), (''e'', worker_E)]) = (0, 3) # [(1, 3)]"
    by (simp only: sort_I1_J list.sel suggest_issue_eq snd_conv seed_D_E candidates_D_E s1)
  have h4: "(0::rat) < 3" by simp
  have h5: "accept_all 0 (hd (sort_issues [item_I1, item_J]))
        (username (snd (seed Map.empty [(''d'', worker_D), (''e'', worker_E)] ! 0)))"
    by (simp add: accept_all_def)
  from suggest_top_is_selection [where unassigned_issues = "[item_I1, item_J]" and m = 10
      and workload = Map.empty and ws = "[(''d'', worker_D), (''e'', worker_E)]"
      and k = 0 and s = 3 and rest = "[(1, 3)]" and c = accept_all] h1 h2 h3 h4 h5
  have "\<exists>more. assignments (outcomes (assign_tasks accept_all Map.empty [item_I1, item_J] 10
          [(''d'', worker_D), (''e'', worker_E)]))
        = (hd (sort_issues [item_I1, item_J]),
           username (snd (seed Map.empty [(''d'', worker_D), (''e'', worker_E)] ! 0)), 3) # more"
    by blast
  with h1 h2 h3 h4 h5 show ?thesis by blast
qed

section \<open>Priority labels written with capitals\<close>

lemma keys_H_L: "priority_key item_H = 3" "priority_key item_L = 2"
  by (simp_all add: priority_key_def priority_order_def item_H_def item_L_def)

lemma ranks_H_L: "spec_rank_of item_H = 0" "spec_rank_of item_L = 2"
  by (simp_all add: spec_rank_of_def spec_rank_def item_H_def item_L_def lower_def lower_char_def)

lemma run_L_H:
  "outcomes (assign_tasks accept_all Map.empty [item_L, item_H] 10 [(''d'', worker_D)])
   = [Assigned item_L ''D'' 2, NoSuitable item_H]"
proof -
  have srt: "sort_issues [item_L, item_H] = [item_L, item_H]"
    by (simp add: sort_issues_def keys_H_L)
  have sd: "seed Map.empty [(''d'', worker_D)] = [(''d'', worker_D)]"
    by (simp add: seed_def seed_intern_def workload_get_def worker_D_def)
  have sc: "calculate_task_score item_L worker_D = 2"
    by (simp add: score_defs item_L_def worker_D_def)
  have u: "username worker_D = ''D''" "current_tasks worker_D = 0" "max_tasks worker_D = 1"
    by (simp_all add: worker_D_def)
  have f1: "find_best item_L [(''d'', worker_D)] = (Some 0, 2)"
    by (simp add: find_best_def sc u)
  have f2: "find_best item_H [(''d'', worker_D\<lparr>current_tasks := 1\<rparr>)] = (None, - 1)"
    by (simp add: find_best_def u)
  have p1: "process_issue accept_all item_L
        \<lparr>interns = [(''d'', worker_D)], assignments_made = 0, outcomes = []\<rparr>
      = \<lparr>interns = [(''d'', worker_D\<lparr>current_tasks := 1\<rparr>)],
         assignments_made = 1, outcomes = [Assigned item_L ''D'' 2]\<rparr>"
    by (simp add: process_issue_def f1 u accept_all_def)
  have p2: "outcomes (process_issue accept_all item_H
        \<lparr>interns = [(''d'', worker_D\<lparr>current_tasks := 1\<rparr>)],
         assignments_made = 1, outcomes = [Assigned item_L ''D'' 2]\<rparr>)
      = [Assigned item_L ''D'' 2, NoSuitable item_H]"
    by (simp add: process_issue_def f2)
  show ?thesis
    by (simp add: assign_tasks_def Let_def srt sd p1 p2)
qed

text \<open>
  Claim C3, where the code departs from it. The sort key compares the label names as
  written with the tier names, while the scoring function lower-cases them first. An item
  labelled \<open>High-Priority\<close> has rank 0 in the specification and gets the
  high-priority bonus of the scoring function, yet its sort key is 3. Given after an item
  of low priority, it stays behind it, where the order of the specification puts it first;
  with one worker of capacity 1 the low-priority item takes the worker and the
  high-priority item is left unassigned.
\<close>

theorem priority_order_ignores_case:
  "priority_key item_H = 3
   \<and> spec_rank_of item_H = 0
   \<and> ''high-priority'' \<in> set (issue_labels_of item_H)
   \<and> priority_key item_L = 2
   \<and> spec_rank_of item_L = 2
   \<and> sort_issues [item_L, item_H] = [item_L, item_H]
   \<and> sort_key spec_rank_of [item_L, item_H] = [item_H, item_L]
   \<and> outcomes (assign_tasks accept_all Map.empty [item_L, item_H] 10 [(''d'', worker_D)])
      = [Assigned item_L ''D'' 2, NoSuitable item_H]"
proof (intro conjI)
  show "priority_key item_H = 3" by (rule keys_H_L)
  show "spec_rank_of item_H = 0" by (rule ranks_H_L)
  show "''high-priority'' \<in> set (issue_labels_of item_H)"
    by (simp add: issue_labels_of_def item_H_def lower_def lower_char_def)
  show "priority_key item_L = 2" by (rule keys_H_L)
  show "spec_rank_of item_L = 2" by (rule ranks_H_L)
  show "sort_issues [item_L, item_H] = [item_L, item_H]"
    by (simp add: sort_issues_def keys_H_L)
  show "sort_key spec_rank_of [item_L, item_H] = [item_H, item_L]"
    by (simp add: ranks_H_L)
  show "outcomes (assign_tasks accept_all Map.empty [item_L, item_H] 10 [(''d'', worker_D)])
      = [Assigned item_L ''D'' 2, NoSuitable item_H]" by (rule run_L_H)
qed

end
